theory Spec2Isabelle
  imports Main
begin

section \<open>Platform values used by the worker\<close>

text \<open>
  The worker (src/index.ts) is one request handler, \<open>fetch\<close>, and one helper,
  \<open>matchPath\<close>. Exceptions of the JavaScript platform are values here: a function that
  can throw returns \<open>js_error + 'a\<close>, with \<open>Inl\<close> the exception. An exception that
  leaves \<open>fetch\<close> is the failed request (the runtime answers it with an error page).
  \<open>NotModelled\<close> is not a JavaScript exception: the RegExp fragment below returns it for
  pattern syntax it does not cover.
\<close>

datatype js_error = SyntaxError | TypeError | RangeError | NotModelled

definition bslash :: char where
  "bslash = CHR 0x5C"

subsection \<open>A fragment of the RegExp engine\<close>

text \<open>
  \<open>new RegExp(source, flags)\<close> and \<open>String.prototype.match\<close> are the platform's. The
  fragment modelled here, without the \<open>u\<close> and \<open>v\<close> flags: pattern characters,
  \<open>.\<close>, the escapes \<open>\d \D \w \W \s \S \n \r \t \f \v\<close>, identity escapes of
  characters that are not letters or digits, character classes with ranges and
  negation, capturing groups and \<open>(?:\<close> groups, \<open>|\<close>, the quantifiers
  \<open>*\<close> \<open>+\<close> \<open>?\<close> \<open>{n}\<close> \<open>{n,}\<close> \<open>{n,m}\<close>, greedy and lazy, and the
  assertions \<open>^\<close> \<open>$\<close>, with the flags \<open>''''\<close> and \<open>''i''\<close>. A brace that does
  not write a quantifier is a pattern character, as are \<open>]\<close> and \<open>}\<close>. Outside the
  fragment, and answered with \<open>NotModelled\<close>: the other letter and digit escapes
  (back references, \<open>\b\<close>, \<open>\x\<close>, \<open>\u\<close>, \<open>\c\<close>), look-around and named
  groups. Characters are code units below 256; the flag \<open>i\<close> folds the ASCII
  letters.
\<close>

datatype char_set_item =
  Single char | Range char char
  | Digits | NonDigits | WordChars | NonWordChars | Spaces | NonSpaces

datatype class_atom = AItem char_set_item | ADash

datatype token =
  TChar char | TDot | TSet bool "char_set_item list"
  | TStar | TPlus | TQuest | TRepeat nat "nat option"
  | TBar | TLPar | TNonCapture | TRPar | TBol | TEol
  | TLBrace | TRBrace | TComma
  | TError js_error

definition is_digit :: "char \<Rightarrow> bool" where
  "is_digit c = (48 \<le> (of_char c :: nat) \<and> (of_char c :: nat) \<le> 57)"

definition is_letter :: "char \<Rightarrow> bool" where
  "is_letter c = ((65 \<le> (of_char c :: nat) \<and> (of_char c :: nat) \<le> 90)
                \<or> (97 \<le> (of_char c :: nat) \<and> (of_char c :: nat) \<le> 122))"

definition is_word_char :: "char \<Rightarrow> bool" where
  "is_word_char c = (is_letter c \<or> is_digit c \<or> c = CHR ''_'')"

definition is_space :: "char \<Rightarrow> bool" where
  "is_space c = (c \<in> {CHR 0x09, CHR 0x0A, CHR 0x0B, CHR 0x0C, CHR 0x0D, CHR 0x20, CHR 0xA0})"

definition set_escape :: "char \<Rightarrow> char_set_item option" where
  "set_escape c =
     (if c = CHR ''d'' then Some Digits
      else if c = CHR ''D'' then Some NonDigits
      else if c = CHR ''w'' then Some WordChars
      else if c = CHR ''W'' then Some NonWordChars
      else if c = CHR ''s'' then Some Spaces
      else if c = CHR ''S'' then Some NonSpaces
      else None)"

definition control_escape :: "char \<Rightarrow> char option" where
  "control_escape c =
     (if c = CHR ''n'' then Some CHR 0x0A
      else if c = CHR ''r'' then Some CHR 0x0D
      else if c = CHR ''t'' then Some CHR 0x09
      else if c = CHR ''f'' then Some CHR 0x0C
      else if c = CHR ''v'' then Some CHR 0x0B
      else None)"

text \<open>The token of \<open>\c\<close> outside a character class.\<close>

definition escape_token :: "char \<Rightarrow> token" where
  "escape_token c =
     (case set_escape c of
        Some i \<Rightarrow> TSet False [i]
      | None \<Rightarrow>
          (case control_escape c of
             Some k \<Rightarrow> TChar k
           | None \<Rightarrow> if is_letter c \<or> is_digit c then TError NotModelled else TChar c))"

text \<open>The member \<open>\c\<close> of a character class; \<open>\b\<close> is the backspace there.\<close>

definition class_escape :: "char \<Rightarrow> js_error + char_set_item" where
  "class_escape c =
     (case set_escape c of
        Some i \<Rightarrow> Inr i
      | None \<Rightarrow>
          (case control_escape c of
             Some k \<Rightarrow> Inr (Single k)
           | None \<Rightarrow>
               if c = CHR ''b'' then Inr (Single CHR 0x08)
               else if is_letter c \<or> is_digit c then Inl NotModelled
               else Inr (Single c)))"

definition plain_token :: "char \<Rightarrow> token" where
  "plain_token c =
     (if c = CHR ''.'' then TDot
      else if c = CHR ''*'' then TStar
      else if c = CHR ''+'' then TPlus
      else if c = CHR ''?'' then TQuest
      else if c = CHR ''|'' then TBar
      else if c = CHR ''('' then TLPar
      else if c = CHR '')'' then TRPar
      else if c = CHR ''^'' then TBol
      else if c = CHR ''$'' then TEol
      else if c = CHR ''{'' then TLBrace
      else if c = CHR ''}'' then TRBrace
      else if c = CHR '','' then TComma
      else TChar c)"

text \<open>
  The members of a class, from its atoms in order: an atom, a dash and an atom are a
  range (a SyntaxError when it is out of order) when both ends are single
  characters, and the two atoms and the dash otherwise; a dash elsewhere is the
  character.
\<close>

fun atom_item :: "class_atom \<Rightarrow> char_set_item" where
  "atom_item (AItem i) = i"
| "atom_item ADash = Single CHR ''-''"

definition range_of :: "char_set_item \<Rightarrow> char_set_item \<Rightarrow> js_error + char_set_item list" where
  "range_of a b =
     (case a of
        Single lo \<Rightarrow>
          (case b of
             Single hi \<Rightarrow>
               if (of_char hi :: nat) < of_char lo then Inl SyntaxError
               else Inr [Range lo hi]
           | _ \<Rightarrow> Inr [a, Single CHR ''-'', b])
      | _ \<Rightarrow> Inr [a, Single CHR ''-'', b])"

fun ranges :: "class_atom list \<Rightarrow> js_error + char_set_item list" where
  "ranges (a # ADash # b # rest) =
     (case range_of (atom_item a) (atom_item b) of
        Inl e \<Rightarrow> Inl e
      | Inr first \<Rightarrow>
          (case ranges rest of Inl e \<Rightarrow> Inl e | Inr items \<Rightarrow> Inr (first @ items)))"
| "ranges (a # rest) =
     (case ranges rest of Inl e \<Rightarrow> Inl e | Inr items \<Rightarrow> Inr (atom_item a # items))"
| "ranges [] = Inr []"

text \<open>
  The lexer reads one character or one escape at a time, and \<open>(?:\<close> at once.
  Inside a character class its state is the class so far: whether it is negated,
  whether nothing has been read after the \<open>[\<close>, and the atoms read, latest
  first. It stops at the first error.
\<close>

type_synonym class_state = "bool \<times> bool \<times> class_atom list"

fun scan :: "class_state option \<Rightarrow> string \<Rightarrow> token list" where
  "scan None [] = []"
| "scan (Some cl) [] = [TError SyntaxError]"
| "scan None (c # cs) =
     (if c = bslash
      then (case cs of [] \<Rightarrow> [TError SyntaxError] | d # ds \<Rightarrow> escape_token d # scan None ds)
      else if c = CHR ''['' then scan (Some (False, True, [])) cs
      else if c = CHR ''(''
      then (case cs of
              [] \<Rightarrow> [TLPar]
            | q # rest \<Rightarrow>
                if q = CHR ''?''
                then (case rest of
                        [] \<Rightarrow> [TError NotModelled]
                      | k # rest' \<Rightarrow>
                          if k = CHR '':'' then TNonCapture # scan None rest'
                          else [TError NotModelled])
                else TLPar # scan None cs)
      else plain_token c # scan None cs)"
| "scan (Some (negated, start, atoms)) (c # cs) =
     (if c = bslash
      then (case cs of
              [] \<Rightarrow> [TError SyntaxError]
            | d # ds \<Rightarrow>
                (case class_escape d of
                   Inl e \<Rightarrow> [TError e]
                 | Inr i \<Rightarrow> scan (Some (negated, False, AItem i # atoms)) ds))
      else if c = CHR '']''
      then (case ranges (rev atoms) of
              Inl e \<Rightarrow> [TError e]
            | Inr items \<Rightarrow> TSet negated items # scan None cs)
      else if c = CHR ''^'' \<and> start then scan (Some (True, False, atoms)) cs
      else if c = CHR ''-'' then scan (Some (negated, False, ADash # atoms)) cs
      else scan (Some (negated, False, AItem (Single c) # atoms)) cs)"

text \<open>
  Braces: \<open>{\<close>, digits, optionally a comma and digits, and \<open>}\<close> are one quantifier;
  a \<open>{\<close> that does not start one is a pattern character, with what was read after
  it. Digits, commas and braces that were escaped are not these tokens.
\<close>

datatype brace_state = Idle | Lo string | Hi string string

definition digits_value :: "string \<Rightarrow> nat" where
  "digits_value ds = fold (\<lambda>d n. 10 * n + ((of_char d :: nat) - 48)) ds 0"

fun literal :: "token \<Rightarrow> token" where
  "literal TLBrace = TChar CHR ''{''"
| "literal TRBrace = TChar CHR ''}''"
| "literal TComma = TChar CHR '',''"
| "literal t = t"

fun flush :: "brace_state \<Rightarrow> token list" where
  "flush Idle = []"
| "flush (Lo ds) = TChar CHR ''{'' # map TChar (rev ds)"
| "flush (Hi lo ds) = TChar CHR ''{'' # map TChar (rev lo) @ TChar CHR '','' # map TChar (rev ds)"

definition idle_step :: "token \<Rightarrow> token list \<times> brace_state" where
  "idle_step t = (if t = TLBrace then ([], Lo []) else ([literal t], Idle))"

definition digit_of :: "token \<Rightarrow> char option" where
  "digit_of t = (case t of TChar d \<Rightarrow> if is_digit d then Some d else None | _ \<Rightarrow> None)"

fun brace_step :: "brace_state \<Rightarrow> token \<Rightarrow> token list \<times> brace_state" where
  "brace_step Idle t = idle_step t"
| "brace_step (Lo ds) t =
     (case digit_of t of
        Some d \<Rightarrow> ([], Lo (d # ds))
      | None \<Rightarrow>
          if t = TComma \<and> ds \<noteq> [] then ([], Hi ds [])
          else if t = TRBrace \<and> ds \<noteq> []
          then ([TRepeat (digits_value (rev ds)) (Some (digits_value (rev ds)))], Idle)
          else (flush (Lo ds) @ fst (idle_step t), snd (idle_step t)))"
| "brace_step (Hi lo ds) t =
     (case digit_of t of
        Some d \<Rightarrow> ([], Hi lo (d # ds))
      | None \<Rightarrow>
          if t = TRBrace
          then ([TRepeat (digits_value (rev lo))
                   (if ds = [] then None else Some (digits_value (rev ds)))], Idle)
          else (flush (Hi lo ds) @ fst (idle_step t), snd (idle_step t)))"

fun braces :: "brace_state \<Rightarrow> token list \<Rightarrow> token list" where
  "braces st [] = flush st"
| "braces st (t # ts) = fst (brace_step st t) @ braces (snd (brace_step st t)) ts"

definition tokens :: "string \<Rightarrow> token list" where
  "tokens source = braces Idle (scan None source)"

datatype re =
  Chr char | Dot | Set bool "char_set_item list" | Bol | Eol | Eps
  | Seq re re | Alt re re | Repeat re nat "nat option" bool | Group nat re

datatype term_kind = KAtom | KAssertion | KQuantified | KLazy

text \<open>
  A frame is one open group (or the whole pattern): its number, 0 for the whole
  pattern and for a group that does not capture, its finished alternatives and the
  terms of the current alternative, both latest first.
\<close>

type_synonym frame = "nat \<times> re list \<times> (re \<times> term_kind) list"

datatype parse_result = Parsed re nat | Syntax_error | Not_modelled

fun mk_seq :: "re list \<Rightarrow> re" where
  "mk_seq [] = Eps"
| "mk_seq [r] = r"
| "mk_seq (r # rs) = Seq r (mk_seq rs)"

fun mk_alt :: "re list \<Rightarrow> re" where
  "mk_alt [] = Eps"
| "mk_alt [r] = r"
| "mk_alt (r # rs) = Alt r (mk_alt rs)"

definition close_alternative :: "(re \<times> term_kind) list \<Rightarrow> re" where
  "close_alternative terms = mk_seq (rev (map fst terms))"

definition close_frame :: "re list \<Rightarrow> (re \<times> term_kind) list \<Rightarrow> re" where
  "close_frame alts terms = mk_alt (rev (close_alternative terms # alts))"

fun lazy :: "re \<Rightarrow> re" where
  "lazy (Repeat r lo hi greedy) = Repeat r lo hi False"
| "lazy r = r"

text \<open>
  A quantifier needs an atom before it: after nothing, after an assertion or after
  another quantifier the engine throws "nothing to repeat", and it throws for bounds
  out of order. \<open>?\<close> after a quantifier makes it lazy.
\<close>

fun quantify ::
  "bool \<Rightarrow> nat \<Rightarrow> nat option \<Rightarrow> (re \<times> term_kind) list \<Rightarrow> js_error + (re \<times> term_kind) list" where
  "quantify quest lo hi [] = Inl SyntaxError"
| "quantify quest lo hi ((r, KAtom) # terms) =
     (if (case hi of Some h \<Rightarrow> h < lo | None \<Rightarrow> False) then Inl SyntaxError
      else Inr ((Repeat r lo hi True, KQuantified) # terms))"
| "quantify quest lo hi ((r, KAssertion) # terms) = Inl SyntaxError"
| "quantify quest lo hi ((r, KQuantified) # terms) =
     (if quest then Inr ((lazy r, KLazy) # terms) else Inl SyntaxError)"
| "quantify quest lo hi ((r, KLazy) # terms) = Inl SyntaxError"

definition parse_error :: "js_error \<Rightarrow> parse_result" where
  "parse_error e = (if e = NotModelled then Not_modelled else Syntax_error)"

definition closed_group :: "nat \<Rightarrow> re \<Rightarrow> re" where
  "closed_group g r = (if g = 0 then r else Group g r)"

fun parse_tokens :: "token list \<Rightarrow> nat \<Rightarrow> frame \<Rightarrow> frame list \<Rightarrow> parse_result" where
  "parse_tokens [] n (g, alts, terms) stack =
     (if stack = [] then Parsed (close_frame alts terms) n else Syntax_error)"
| "parse_tokens (TChar c # ts) n (g, alts, terms) stack =
     parse_tokens ts n (g, alts, (Chr c, KAtom) # terms) stack"
| "parse_tokens (TDot # ts) n (g, alts, terms) stack =
     parse_tokens ts n (g, alts, (Dot, KAtom) # terms) stack"
| "parse_tokens (TSet negated items # ts) n (g, alts, terms) stack =
     parse_tokens ts n (g, alts, (Set negated items, KAtom) # terms) stack"
| "parse_tokens (TBol # ts) n (g, alts, terms) stack =
     parse_tokens ts n (g, alts, (Bol, KAssertion) # terms) stack"
| "parse_tokens (TEol # ts) n (g, alts, terms) stack =
     parse_tokens ts n (g, alts, (Eol, KAssertion) # terms) stack"
| "parse_tokens (TStar # ts) n (g, alts, terms) stack =
     (case quantify False 0 None terms of
        Inl e \<Rightarrow> parse_error e
      | Inr terms' \<Rightarrow> parse_tokens ts n (g, alts, terms') stack)"
| "parse_tokens (TPlus # ts) n (g, alts, terms) stack =
     (case quantify False 1 None terms of
        Inl e \<Rightarrow> parse_error e
      | Inr terms' \<Rightarrow> parse_tokens ts n (g, alts, terms') stack)"
| "parse_tokens (TQuest # ts) n (g, alts, terms) stack =
     (case quantify True 0 (Some 1) terms of
        Inl e \<Rightarrow> parse_error e
      | Inr terms' \<Rightarrow> parse_tokens ts n (g, alts, terms') stack)"
| "parse_tokens (TRepeat lo hi # ts) n (g, alts, terms) stack =
     (case quantify False lo hi terms of
        Inl e \<Rightarrow> parse_error e
      | Inr terms' \<Rightarrow> parse_tokens ts n (g, alts, terms') stack)"
| "parse_tokens (TBar # ts) n (g, alts, terms) stack =
     parse_tokens ts n (g, close_alternative terms # alts, []) stack"
| "parse_tokens (TLPar # ts) n (g, alts, terms) stack =
     parse_tokens ts (Suc n) (Suc n, [], []) ((g, alts, terms) # stack)"
| "parse_tokens (TNonCapture # ts) n (g, alts, terms) stack =
     parse_tokens ts n (0, [], []) ((g, alts, terms) # stack)"
| "parse_tokens (TRPar # ts) n (g, alts, terms) stack =
     (case stack of
        [] \<Rightarrow> Syntax_error
      | (g', alts', terms') # stack' \<Rightarrow>
          parse_tokens ts n
            (g', alts', (closed_group g (close_frame alts terms), KAtom) # terms') stack')"
| "parse_tokens (TLBrace # ts) n (g, alts, terms) stack =
     parse_tokens ts n (g, alts, (Chr CHR ''{'', KAtom) # terms) stack"
| "parse_tokens (TRBrace # ts) n (g, alts, terms) stack =
     parse_tokens ts n (g, alts, (Chr CHR ''}'', KAtom) # terms) stack"
| "parse_tokens (TComma # ts) n (g, alts, terms) stack =
     parse_tokens ts n (g, alts, (Chr CHR '','', KAtom) # terms) stack"
| "parse_tokens (TError e # ts) n (g, alts, terms) stack = parse_error e"

definition parse :: "string \<Rightarrow> parse_result" where
  "parse source = parse_tokens (tokens source) 0 (0, [], []) []"

text \<open>
  The matcher returns the states every way of matching leads to, in the engine's
  order of preference, so backtracking takes the first that the rest of the pattern
  accepts. A state is the input not yet consumed and the captures so far
  (\<open>None\<close> is \<open>undefined\<close>).
\<close>

type_synonym mstate = "string \<times> string option list"

fun groups_in :: "re \<Rightarrow> nat list" where
  "groups_in (Seq a b) = groups_in a @ groups_in b"
| "groups_in (Alt a b) = groups_in a @ groups_in b"
| "groups_in (Repeat r lo hi greedy) = groups_in r"
| "groups_in (Group k r) = k # groups_in r"
| "groups_in _ = []"

definition clear_captures :: "nat list \<Rightarrow> string option list \<Rightarrow> string option list" where
  "clear_captures ks caps = fold (\<lambda>k cs. cs[k - 1 := None]) ks caps"

definition to_upper :: "char \<Rightarrow> char" where
  "to_upper c =
     (if 97 \<le> (of_char c :: nat) \<and> (of_char c :: nat) \<le> 122
      then char_of ((of_char c :: nat) - 32) else c)"

definition to_lower :: "char \<Rightarrow> char" where
  "to_lower c =
     (if 65 \<le> (of_char c :: nat) \<and> (of_char c :: nat) \<le> 90
      then char_of ((of_char c :: nat) + 32) else c)"

definition char_eq :: "bool \<Rightarrow> char \<Rightarrow> char \<Rightarrow> bool" where
  "char_eq ignoreCase c d = (if ignoreCase then to_upper c = to_upper d else c = d)"

definition is_line_terminator :: "char \<Rightarrow> bool" where
  "is_line_terminator c = (c = CHR 0x0A \<or> c = CHR 0x0D)"

definition in_range :: "char \<Rightarrow> char \<Rightarrow> char \<Rightarrow> bool" where
  "in_range lo hi c = ((of_char lo :: nat) \<le> of_char c \<and> (of_char c :: nat) \<le> of_char hi)"

text \<open>
  A character is in a class when a member of the class is the character, or with the
  flag \<open>i\<close> has the same case folding; a negated class takes the others.
\<close>

fun item_matches :: "bool \<Rightarrow> char \<Rightarrow> char_set_item \<Rightarrow> bool" where
  "item_matches ic c (Single a) = char_eq ic a c"
| "item_matches ic c (Range lo hi) =
     (if ic then in_range lo hi c \<or> in_range lo hi (to_upper c) \<or> in_range lo hi (to_lower c)
      else in_range lo hi c)"
| "item_matches ic c Digits = is_digit c"
| "item_matches ic c NonDigits = (\<not> is_digit c)"
| "item_matches ic c WordChars = is_word_char c"
| "item_matches ic c NonWordChars = (\<not> is_word_char c)"
| "item_matches ic c Spaces = is_space c"
| "item_matches ic c NonSpaces = (\<not> is_space c)"

definition set_matches :: "bool \<Rightarrow> bool \<Rightarrow> char_set_item list \<Rightarrow> char \<Rightarrow> bool" where
  "set_matches ic negated items c = (list_ex (item_matches ic c) items \<noteq> negated)"

fun rank :: "re \<Rightarrow> nat" where
  "rank (Seq a b) = Suc (rank a + rank b)"
| "rank (Alt a b) = Suc (rank a + rank b)"
| "rank (Repeat r lo hi greedy) = Suc (rank r)"
| "rank (Group k r) = Suc (rank r)"
| "rank _ = 0"

fun still_required :: "re \<Rightarrow> nat" where
  "still_required (Repeat r lo hi greedy) = lo"
| "still_required _ = 0"

text \<open>
  The continuations of a repetition: with iterations still required only the
  iterations; otherwise the iterations first when greedy, and stopping here first
  when lazy.
\<close>

definition repeat_results :: "nat \<Rightarrow> bool \<Rightarrow> mstate list \<Rightarrow> mstate \<Rightarrow> mstate list" where
  "repeat_results lo greedy again st =
     (if lo \<noteq> 0 then again else if greedy then again @ [st] else st # again)"

text \<open>
  \<open>n\<close> is the length of the whole input, so \<open>^\<close> holds where nothing is consumed yet.
  Every iteration of a repetition starts with the captures of the groups inside it
  cleared, and an iteration that consumes nothing is rejected once no iteration is
  required any more, as the engine's repeat matcher does.
\<close>

function run :: "bool \<Rightarrow> nat \<Rightarrow> re \<Rightarrow> mstate \<Rightarrow> mstate list" where
  "run ic n (Chr c) (s, caps) =
     (case s of [] \<Rightarrow> [] | d # ds \<Rightarrow> if char_eq ic c d then [(ds, caps)] else [])"
| "run ic n Dot (s, caps) =
     (case s of [] \<Rightarrow> [] | d # ds \<Rightarrow> if is_line_terminator d then [] else [(ds, caps)])"
| "run ic n (Set negated items) (s, caps) =
     (case s of [] \<Rightarrow> [] | d # ds \<Rightarrow> if set_matches ic negated items d then [(ds, caps)] else [])"
| "run ic n Bol (s, caps) = (if length s = n then [(s, caps)] else [])"
| "run ic n Eol (s, caps) = (if s = [] then [(s, caps)] else [])"
| "run ic n Eps (s, caps) = [(s, caps)]"
| "run ic n (Seq a b) (s, caps) = concat (map (run ic n b) (run ic n a (s, caps)))"
| "run ic n (Alt a b) (s, caps) = run ic n a (s, caps) @ run ic n b (s, caps)"
| "run ic n (Group k r) (s, caps) =
     map (\<lambda>st'. (fst st', (snd st')[k - 1 := Some (take (length s - length (fst st')) s)]))
       (run ic n r (s, caps))"
| "run ic n (Repeat r lo hi greedy) (s, caps) =
     (if hi = Some 0 then [(s, caps)]
      else repeat_results lo greedy
             (concat (map (\<lambda>st'. if lo = 0 \<and> \<not> length (fst st') < length s then []
                                  else run ic n (Repeat r (lo - 1) (map_option (\<lambda>h. h - 1) hi)
                                              greedy) st')
                        (run ic n r (s, clear_captures (groups_in r) caps))))
             (s, caps))"
  by pat_completeness auto
termination
  by (relation "inv_image (less_than <*lex*> less_than <*lex*> less_than)
                  (\<lambda>(ic, n, r, st). (rank r, still_required r, length (fst st)))") auto

text \<open>
  \<open>input.match(regex)\<close> without the global flag: the match is tried from every start
  position, leftmost first. The result array is the whole match followed by the
  captures.
\<close>

fun match_from :: "bool \<Rightarrow> re \<Rightarrow> nat \<Rightarrow> nat \<Rightarrow> string \<Rightarrow> string option list option" where
  "match_from ic r g n s =
     (case run ic n r (s, replicate g None) of
        st # _ \<Rightarrow> Some (Some (take (length s - length (fst st)) s) # snd st)
      | [] \<Rightarrow> (case s of [] \<Rightarrow> None | _ # s' \<Rightarrow> match_from ic r g n s'))"

declare match_from.simps [simp del]

type_synonym regexp = "string \<Rightarrow> string option list option"

definition RegExp_fragment :: "string \<Rightarrow> string \<Rightarrow> js_error + regexp" where
  "RegExp_fragment source flags =
     (case parse source of
        Syntax_error \<Rightarrow> Inl SyntaxError
      | Not_modelled \<Rightarrow> Inl NotModelled
      | Parsed r g \<Rightarrow> Inr (\<lambda>input. match_from (flags = ''i'') r g (length input) input))"

section \<open>matchPath\<close>

text \<open>
  \<open>s.replace(/c/g, rep)\<close> for a one-character pattern and a replacement without
  \<open>$\<close>: every occurrence of the character becomes \<open>rep\<close>.
\<close>

definition replace_all :: "char \<Rightarrow> string \<Rightarrow> string \<Rightarrow> string" where
  "replace_all c rep s = concat (map (\<lambda>x. if x = c then rep else [x]) s)"

definition str_includes :: "string \<Rightarrow> char \<Rightarrow> bool" where
  "str_includes s c = (c \<in> set s)"

definition regexPattern :: "string \<Rightarrow> string" where
  "regexPattern pattern =
     (if str_includes pattern CHR ''('' \<and> str_includes pattern CHR '')'' then pattern
      else replace_all CHR ''/'' [bslash, CHR ''/''] (replace_all CHR ''*'' ''(.*)'' pattern))"

text \<open>
  The first argument is the platform's \<open>RegExp\<close> constructor. The result is
  \<open>Inl\<close> when the constructor throws, \<open>Inr None\<close> for \<open>null\<close> and
  \<open>Inr (Some captures)\<close> for \<open>{ captures: match.slice(1) }\<close>.
\<close>

definition matchPath ::
  "(string \<Rightarrow> string \<Rightarrow> js_error + regexp) \<Rightarrow> string \<Rightarrow> string \<Rightarrow> bool
     \<Rightarrow> js_error + string option list option" where
  "matchPath RegExp path pattern caseSensitive =
     (let flags = (if caseSensitive then '''' else ''i'') in
      case RegExp (''^'' @ regexPattern pattern @ ''$'') flags of
        Inl e \<Rightarrow> Inl e
      | Inr regex \<Rightarrow>
          (case regex path of
             Some m \<Rightarrow> Inr (Some (drop 1 m))
           | None \<Rightarrow> Inr None))"

section \<open>Data of the worker\<close>

text \<open>
  A URL as the platform's \<open>URL\<close> object holds it. \<open>host\<close>, \<open>query\<close> and
  \<open>fragment\<close> can be null; \<open>port\<close> is empty for the scheme's default port.
  \<open>protocol\<close> ends with the colon, as the getter returns it.
\<close>

record url =
  protocol :: string
  username :: string
  password :: string
  host :: "string option"
  port :: string
  pathname :: string
  query :: "string option"
  fragment :: "string option"

definition hostname :: "url \<Rightarrow> string" where
  "hostname u = (case host u of None \<Rightarrow> [] | Some h \<Rightarrow> h)"

definition search :: "url \<Rightarrow> string" where
  "search u = (case query u of None \<Rightarrow> [] | Some q \<Rightarrow> if q = [] then [] else ''?'' @ q)"

definition port_suffix :: "url \<Rightarrow> string" where
  "port_suffix u = (if port u = [] then [] else '':'' @ port u)"

definition credentials :: "url \<Rightarrow> string" where
  "credentials u =
     (if username u = [] \<and> password u = [] then []
      else username u @ (if password u = [] then [] else '':'' @ password u) @ ''@'')"

text \<open>\<open>url.toString()\<close>: the URL serializer.\<close>

definition href :: "url \<Rightarrow> string" where
  "href u =
     protocol u
     @ (case host u of
          Some h \<Rightarrow> ''//'' @ credentials u @ h @ port_suffix u
        | None \<Rightarrow> if take 2 (pathname u) = ''//'' then ''/.'' else [])
     @ pathname u
     @ (case query u of None \<Rightarrow> [] | Some q \<Rightarrow> ''?'' @ q)
     @ (case fragment u of None \<Rightarrow> [] | Some f \<Rightarrow> ''#'' @ f)"

definition origin :: "url \<Rightarrow> string" where
  "origin u =
     (if protocol u \<in> {''http:'', ''https:'', ''ws:'', ''wss:'', ''ftp:''}
      then protocol u @ ''//'' @ hostname u @ port_suffix u
      else ''null'')"

text \<open>
  \<open>url.protocol = 'https:'\<close> on an http URL: the scheme changes, and a port that is
  the new scheme's default becomes null.
\<close>

definition set_protocol_https :: "url \<Rightarrow> url" where
  "set_protocol_https u =
     u\<lparr>protocol := ''https:'', port := (if port u = ''443'' then [] else port u)\<rparr>"

text \<open>
  \<open>url.search = value\<close>: the empty string makes the query null, otherwise one
  leading \<open>?\<close> is dropped and the rest becomes the query. The handler only assigns
  the \<open>search\<close> of a parsed URL, which is percent-encoded already, so the setter's
  encoding step changes nothing and is left out.
\<close>

definition set_search :: "url \<Rightarrow> string \<Rightarrow> url" where
  "set_search u v =
     (case v of
        [] \<Rightarrow> u\<lparr>query := None\<rparr>
      | c # cs \<Rightarrow> u\<lparr>query := Some (if c = CHR ''?'' then cs else v)\<rparr>)"

record RedirectRule =
  rule_from :: string
  rule_to :: string
  status :: "int option"
  preserveQuery :: "bool option"
  caseSensitive :: "bool option"
  domain :: "string option"

record request =
  req_url :: url
  req_method :: string
  authorization :: "string option"

record env =
  FORCE_HTTPS :: "string option"
  WWW_REDIRECT :: "string option"
  GIST_CONFIG_URL :: "string option"
  ADMIN_KEY :: "string option"

text \<open>The module-level variables \<open>cachedRules\<close> and \<open>cacheTimestamp\<close>.\<close>

record cache =
  cachedRules :: "RedirectRule list option"
  cacheTimestamp :: int

definition initial_cache :: cache where
  "initial_cache = \<lparr>cachedRules = None, cacheTimestamp = 0\<rparr>"

definition CACHE_TTL :: int where
  "CACHE_TTL = 300000"

definition calendar_url :: string where
  "calendar_url = ''https://calendar.app.google/6TBBkNxv1fH7etaj6''"

definition whatsapp_url :: string where
  "whatsapp_url = ''https://wa.me/qr/PVZTFJDU3YOPE1''"

definition DEFAULT_REDIRECTS :: "RedirectRule list" where
  "DEFAULT_REDIRECTS =
    [\<lparr>rule_from = ''/old-page'', rule_to = ''/new-page'', status = Some 301,
      preserveQuery = Some True, caseSensitive = None, domain = None\<rparr>,
     \<lparr>rule_from = ''/blog/*'', rule_to = ''/articles/$1'', status = Some 301,
      preserveQuery = Some True, caseSensitive = None, domain = None\<rparr>,
     \<lparr>rule_from = ''/product/(.*)'', rule_to = ''/products/$1'', status = Some 301,
      preserveQuery = Some True, caseSensitive = None, domain = None\<rparr>,
     \<lparr>rule_from = ''/'', rule_to = calendar_url, status = Some 301,
      preserveQuery = Some False, caseSensitive = None,
      domain = Some ''book.carlosguerrero.com''\<rparr>,
     \<lparr>rule_from = ''/'', rule_to = calendar_url, status = Some 301,
      preserveQuery = Some False, caseSensitive = None,
      domain = Some ''calendar.carlosguerrero.com''\<rparr>,
     \<lparr>rule_from = ''/calendar'', rule_to = calendar_url, status = Some 301,
      preserveQuery = Some False, caseSensitive = None,
      domain = Some ''carlosguerrero.com''\<rparr>,
     \<lparr>rule_from = ''/'', rule_to = whatsapp_url, status = Some 301,
      preserveQuery = Some False, caseSensitive = None,
      domain = Some ''whatsapp.carlosguerrero.com''\<rparr>,
     \<lparr>rule_from = ''/whatsapp'', rule_to = whatsapp_url, status = Some 301,
      preserveQuery = Some False, caseSensitive = None,
      domain = Some ''carlosguerrero.com''\<rparr>,
     \<lparr>rule_from = ''/linkedin'', rule_to = ''https://www.linkedin.com/in/carlosguerrero-com/'',
      status = Some 301, preserveQuery = Some False, caseSensitive = None,
      domain = Some ''carlosguerrero.com''\<rparr>,
     \<lparr>rule_from = ''/'', rule_to = ''https://cv.carlosguerrero.com'', status = Some 301,
      preserveQuery = Some False, caseSensitive = None,
      domain = Some ''carlosguerrero.com''\<rparr>]"

text \<open>
  What the handler takes from the platform: the \<open>RegExp\<close> constructor, the \<open>URL\<close>
  constructor (\<open>None\<close> is its TypeError; the second argument is the optional base) and
  the \<open>hostname\<close> setter of a URL.
\<close>

record platform =
  RegExp :: "string \<Rightarrow> string \<Rightarrow> js_error + regexp"
  new_URL :: "string \<Rightarrow> string option \<Rightarrow> url option"
  set_hostname :: "url \<Rightarrow> string \<Rightarrow> url"

text \<open>
  The answer of the external source to \<open>fetch(env.GIST_CONFIG_URL)\<close>: \<open>None\<close> when the
  call rejects, otherwise a response with its \<open>ok\<close> flag and what \<open>response.json()\<close>
  gives (\<open>None\<close> when it throws). An array holds rules of the shape of
  \<open>RedirectRule\<close>, the type the handler reads them at.
\<close>

datatype json_value = JArray "RedirectRule list" | JOther

datatype http_response = HttpResponse (ok: bool) (json: "json_value option")

datatype response =
  Redirect string int
  | HealthOk
  | Unauthorized
  | RulesDump "RedirectRule list"
  | NotFoundPage string

section \<open>The handler\<close>

subsection \<open>Loading the rules\<close>

definition truthy :: "string option \<Rightarrow> bool" where
  "truthy v = (case v of None \<Rightarrow> False | Some s \<Rightarrow> s \<noteq> [])"

definition cached_or_default :: "cache \<Rightarrow> RedirectRule list" where
  "cached_or_default c = (case cachedRules c of Some rs \<Rightarrow> rs | None \<Rightarrow> DEFAULT_REDIRECTS)"

text \<open>
  Lines 129 to 168 of \<open>fetch\<close>. The result is \<open>redirectRules\<close>, the cache after the
  call and the URLs fetched during it, in order.
\<close>

definition load_rules ::
  "env \<Rightarrow> (string \<Rightarrow> http_response option) \<Rightarrow> int \<Rightarrow> cache
     \<Rightarrow> RedirectRule list \<times> cache \<times> string list" where
  "load_rules e net now c =
     (if cachedRules c \<noteq> None \<and> now - cacheTimestamp c < CACHE_TTL
      then (the (cachedRules c), c, [])
      else if truthy (GIST_CONFIG_URL e)
      then (let source = the (GIST_CONFIG_URL e) in
            case net source of
              None \<Rightarrow> (cached_or_default c, c, [source])
            | Some resp \<Rightarrow>
                if ok resp
                then (case json resp of
                        None \<Rightarrow> (cached_or_default c, c, [source])
                      | Some (JArray externalRules) \<Rightarrow>
                          if length externalRules > 0
                          then (externalRules,
                                \<lparr>cachedRules = Some externalRules, cacheTimestamp = now\<rparr>,
                                [source])
                          else (cached_or_default c, c, [source])
                      | Some JOther \<Rightarrow> (cached_or_default c, c, [source]))
                else (cached_or_default c, c, [source]))
      else (cached_or_default c, c, []))"

subsection \<open>Resolving a request against the rules\<close>

text \<open>
  \<open>redirectTo.replace(/\$(\d+)/g, (_, index) => match.captures[parseInt(index) - 1] || '')\<close>:
  a \<open>$\<close> followed by digits is replaced, with all the digits that follow it read as
  one number; the scan goes on after them and does not look into what was inserted.
\<close>

definition parseInt :: "string \<Rightarrow> nat" where
  "parseInt ds = fold (\<lambda>d n. 10 * n + ((of_char d :: nat) - 48)) ds 0"

definition capture_or_empty :: "string option list \<Rightarrow> nat \<Rightarrow> string" where
  "capture_or_empty captures n =
     (if n = 0 \<or> length captures < n then []
      else (case captures ! (n - 1) of None \<Rightarrow> [] | Some s \<Rightarrow> s))"

function substitute :: "string \<Rightarrow> string option list \<Rightarrow> string" where
  "substitute [] captures = []"
| "substitute (c # cs) captures =
     (if c = CHR ''$'' \<and> takeWhile is_digit cs \<noteq> []
      then capture_or_empty captures (parseInt (takeWhile is_digit cs))
           @ substitute (dropWhile is_digit cs) captures
      else c # substitute cs captures)"
  by pat_completeness auto
termination
  by (relation "measure (\<lambda>(s, captures). length s)")
     (auto simp: less_Suc_eq_le length_dropWhile_le)

definition skipped_by_domain :: "RedirectRule \<Rightarrow> url \<Rightarrow> bool" where
  "skipped_by_domain rule u = (truthy (domain rule) \<and> domain rule \<noteq> Some (hostname u))"

definition status_or_default :: "RedirectRule \<Rightarrow> int" where
  "status_or_default rule =
     (case status rule of None \<Rightarrow> 301 | Some s \<Rightarrow> if s = 0 then 301 else s)"

text \<open>
  \<open>Response.redirect(url, status)\<close> throws a RangeError for a status that is not a
  redirect status. Its URL argument is a serialized URL here, which it takes as it is,
  and the status is the integer the rule gives.
\<close>

definition Response_redirect :: "string \<Rightarrow> int \<Rightarrow> js_error + response" where
  "Response_redirect location st =
     (if st \<in> {301, 302, 303, 307, 308} then Inr (Redirect location st) else Inl RangeError)"

text \<open>
  \<open>redirectUrl\<close> of lines 180 to 201: the substituted \<open>to\<close> parsed as an absolute URL
  or, when that throws, against the request's origin, then the query of the request
  assigned. \<open>None\<close> is the TypeError of the second \<open>new URL\<close>, which nothing catches.
\<close>

definition parse_destination :: "platform \<Rightarrow> url \<Rightarrow> string \<Rightarrow> url option" where
  "parse_destination P u redirectTo =
     (case new_URL P redirectTo None of
        Some d \<Rightarrow> Some d
      | None \<Rightarrow> new_URL P redirectTo (Some (origin u)))"

definition with_query :: "RedirectRule \<Rightarrow> url \<Rightarrow> url \<Rightarrow> url" where
  "with_query rule u redirectUrl =
     (if preserveQuery rule \<noteq> Some False \<and> search u \<noteq> []
      then set_search redirectUrl (search u) else redirectUrl)"

definition destination ::
  "platform \<Rightarrow> url \<Rightarrow> RedirectRule \<Rightarrow> string option list \<Rightarrow> url option" where
  "destination P u rule captures =
     map_option (with_query rule u)
       (parse_destination P u (substitute (rule_to rule) captures))"

definition build_redirect ::
  "platform \<Rightarrow> url \<Rightarrow> RedirectRule \<Rightarrow> string option list \<Rightarrow> js_error + response" where
  "build_redirect P u rule captures =
     (case destination P u rule captures of
        None \<Rightarrow> Inl TypeError
      | Some redirectUrl \<Rightarrow> Response_redirect (href redirectUrl) (status_or_default rule))"

text \<open>
  \<open>rule_match\<close> is the call of line 177. The loop of lines 171 to 206:
  \<open>Inr None\<close> when it ends without a match,
  \<open>Inr (Some response)\<close> for the redirect it returns, \<open>Inl\<close> for an exception that
  leaves it.
\<close>

definition rule_match ::
  "platform \<Rightarrow> url \<Rightarrow> RedirectRule \<Rightarrow> js_error + string option list option" where
  "rule_match P u rule =
     matchPath (RegExp P) (pathname u) (rule_from rule) (caseSensitive rule \<noteq> Some False)"

fun resolve :: "platform \<Rightarrow> url \<Rightarrow> RedirectRule list \<Rightarrow> js_error + response option" where
  "resolve P u [] = Inr None"
| "resolve P u (rule # rules) =
     (if skipped_by_domain rule u then resolve P u rules
      else (case rule_match P u rule of
              Inl e \<Rightarrow> Inl e
            | Inr None \<Rightarrow> resolve P u rules
            | Inr (Some captures) \<Rightarrow>
                (case build_redirect P u rule captures of
                   Inl e \<Rightarrow> Inl e
                 | Inr r \<Rightarrow> Inr (Some r))))"

subsection \<open>fetch\<close>

definition starts_with_www :: "string \<Rightarrow> bool" where
  "starts_with_www h = (take 4 h = ''www.'')"

text \<open>What follows the loop, lines 208 to 254.\<close>

definition fallback :: "env \<Rightarrow> request \<Rightarrow> RedirectRule list \<Rightarrow> response" where
  "fallback e req redirectRules =
     (let u = req_url req in
      if pathname u = ''/health'' then HealthOk
      else if pathname u = ''/admin/rules'' \<and> req_method req = ''GET''
      then (if truthy (ADMIN_KEY e)
               \<and> authorization req \<noteq> Some (''Bearer '' @ the (ADMIN_KEY e))
            then Unauthorized
            else RulesDump redirectRules)
      else NotFoundPage (pathname u))"

text \<open>
  The preprocessing of lines 113 to 126: the redirect it answers with, or \<open>None\<close>
  when the request passes.
\<close>

definition preprocess :: "platform \<Rightarrow> env \<Rightarrow> url \<Rightarrow> response option" where
  "preprocess P e u =
     (if protocol u = ''http:'' \<and> FORCE_HTTPS e \<noteq> Some ''false''
      then Some (Redirect (href (set_protocol_https u)) 301)
      else if WWW_REDIRECT e = Some ''remove'' \<and> starts_with_www (hostname u)
      then Some (Redirect (href (set_hostname P u (drop 4 (hostname u)))) 301)
      else if WWW_REDIRECT e = Some ''add'' \<and> \<not> starts_with_www (hostname u)
      then Some (Redirect (href (set_hostname P u (''www.'' @ hostname u))) 301)
      else None)"

text \<open>
  \<open>fetch(request, env, ctx)\<close> at time \<open>now\<close> with the module state \<open>c\<close>: the response
  or the exception, the module state afterwards and the URLs fetched.
\<close>

definition fetch ::
  "platform \<Rightarrow> (string \<Rightarrow> http_response option) \<Rightarrow> int \<Rightarrow> cache \<Rightarrow> env \<Rightarrow> request
     \<Rightarrow> (js_error + response) \<times> cache \<times> string list" where
  "fetch P net now c e req =
     (let u = req_url req in
      case preprocess P e u of
        Some r \<Rightarrow> (Inr r, c, [])
      | None \<Rightarrow>
          (case load_rules e net now c of
             (redirectRules, c', fetched) \<Rightarrow>
               (case resolve P u redirectRules of
                  Inl err \<Rightarrow> (Inl err, c', fetched)
                | Inr (Some r) \<Rightarrow> (Inr r, c', fetched)
                | Inr None \<Rightarrow> (Inr (fallback e req redirectRules), c', fetched))))"

section \<open>Definitions used to state the properties\<close>

subsection \<open>The matcher as the specification words it\<close>

text \<open>
  Section 4.1 of the specification: a pattern with a \<open>(\<close> and a \<open>)\<close> is a regular
  expression applied as it is; in any other pattern each \<open>*\<close> becomes \<open>(.*)\<close>; the
  result is matched anchored at both ends and the captures are returned without the
  whole match.
\<close>

definition spec_pattern :: "string \<Rightarrow> string" where
  "spec_pattern pattern =
     (if CHR ''('' \<in> set pattern \<and> CHR '')'' \<in> set pattern then pattern
      else concat (map (\<lambda>c. if c = CHR ''*'' then ''(.*)'' else [c]) pattern))"

definition spec_match ::
  "(string \<Rightarrow> string \<Rightarrow> js_error + regexp) \<Rightarrow> string \<Rightarrow> string \<Rightarrow> bool
     \<Rightarrow> js_error + string option list option" where
  "spec_match engine path pattern sensitive =
     (case engine (''^'' @ spec_pattern pattern @ ''$'') (if sensitive then [] else ''i'') of
        Inl e \<Rightarrow> Inl e
      | Inr regex \<Rightarrow> Inr (map_option tl (regex path)))"

text \<open>What the code hands to the engine for a pattern that is not a regular expression.\<close>

definition translate_char :: "char \<Rightarrow> string" where
  "translate_char c =
     (if c = CHR ''*'' then ''(.*)'' else if c = CHR ''/'' then [bslash, CHR ''/''] else [c])"

subsection \<open>Anchoring and the escaped slash\<close>

text \<open>
  An engine reads an escaped slash as a slash when, with the flags \<open>matchPath\<close>
  uses, writing \<open>\/\<close> for a \<open>/\<close> that no backslash precedes does not change
  what the constructor returns.
\<close>

definition reads_escaped_slash :: "(string \<Rightarrow> string \<Rightarrow> js_error + regexp) \<Rightarrow> bool" where
  "reads_escaped_slash engine =
     (\<forall>before after flags. bslash \<notin> set before \<and> (flags = [] \<or> flags = ''i'')
        \<longrightarrow> engine (before @ bslash # CHR ''/'' # after) flags
            = engine (before @ CHR ''/'' # after) flags)"

text \<open>Whether a \<open>|\<close> stands outside every group, from the given depth of nesting.\<close>

fun bar_outside_groups :: "nat \<Rightarrow> token list \<Rightarrow> bool" where
  "bar_outside_groups depth [] = False"
| "bar_outside_groups depth (t # ts) =
     (if t = TLPar \<or> t = TNonCapture then bar_outside_groups (Suc depth) ts
      else if t = TRPar then bar_outside_groups (depth - 1) ts
      else if t = TBar \<and> depth = 0 then True
      else bar_outside_groups depth ts)"

text \<open>
  The frames of the parser are anchored when the outermost one has no finished
  alternative and \<open>^\<close> as its first term.
\<close>

definition anchored_frames :: "frame \<Rightarrow> frame list \<Rightarrow> bool" where
  "anchored_frames cur stack =
     (fst (snd (last (cur # stack))) = []
      \<and> snd (snd (last (cur # stack))) \<noteq> []
      \<and> last (snd (snd (last (cur # stack)))) = (Bol, KAssertion))"

subsection \<open>Outcomes of a refresh, rules passed over, kinds of response\<close>

text \<open>
  A refresh fails when the source is unreachable, answers with a status that is not a
  success, or sends a body that does not parse, is not an array or is the empty array.
\<close>

definition refresh_failure :: "http_response option \<Rightarrow> bool" where
  "refresh_failure r =
     (case r of
        None \<Rightarrow> True
      | Some resp \<Rightarrow>
          \<not> ok resp \<or> json resp = None \<or> json resp = Some JOther
          \<or> json resp = Some (JArray []))"

definition cache_fresh :: "cache \<Rightarrow> int \<Rightarrow> bool" where
  "cache_fresh c now = (cachedRules c \<noteq> None \<and> now - cacheTimestamp c < 300000)"

text \<open>
  A rule is passed over when the loop goes on to the next one: its domain excludes the
  request, or its pattern compiles and does not match the path.
\<close>

definition passed_over :: "platform \<Rightarrow> url \<Rightarrow> RedirectRule \<Rightarrow> bool" where
  "passed_over P u rule = (skipped_by_domain rule u \<or> rule_match P u rule = Inr None)"

text \<open>
  What can throw while a rule is applied: the \<open>RegExp\<close> constructor on its pattern,
  the \<open>URL\<close> constructor on its destination, \<open>Response.redirect\<close> on its
  status.
\<close>

definition pattern_compiles :: "platform \<Rightarrow> RedirectRule \<Rightarrow> bool" where
  "pattern_compiles P r =
     (case RegExp P (''^'' @ regexPattern (rule_from r) @ ''$'')
             (if caseSensitive r \<noteq> Some False then [] else ''i'') of
        Inl e \<Rightarrow> False
      | Inr regex \<Rightarrow> True)"

definition destination_parses :: "platform \<Rightarrow> url \<Rightarrow> RedirectRule \<Rightarrow> bool" where
  "destination_parses P u r =
     (case rule_match P u r of
        Inr (Some captures) \<Rightarrow>
          parse_destination P u (substitute (rule_to r) captures) \<noteq> None
      | _ \<Rightarrow> True)"

definition redirect_status :: "int \<Rightarrow> bool" where
  "redirect_status st = (st \<in> {301, 302, 303, 307, 308})"

definition rule_cannot_throw :: "platform \<Rightarrow> url \<Rightarrow> RedirectRule \<Rightarrow> bool" where
  "rule_cannot_throw P u r =
     (skipped_by_domain r u
      \<or> (pattern_compiles P r \<and> destination_parses P u r
          \<and> redirect_status (status_or_default r)))"

definition is_redirect :: "response \<Rightarrow> bool" where
  "is_redirect r = (case r of Redirect location st \<Rightarrow> True | _ \<Rightarrow> False)"

definition nth_capture :: "string option list \<Rightarrow> nat \<Rightarrow> string" where
  "nth_capture captures n =
     (if 1 \<le> n \<and> n \<le> length captures
      then (case captures ! (n - 1) of Some s \<Rightarrow> s | None \<Rightarrow> [])
      else [])"

text \<open>The decimal numeral of a number, as it is written in a placeholder.\<close>

function decimal :: "nat \<Rightarrow> string" where
  "decimal n =
     (if n < 10 then [char_of (48 + n)]
      else decimal (n div 10) @ [char_of (48 + n mod 10)])"
  by pat_completeness auto
termination
  by (relation "measure (\<lambda>n. n)") auto

declare decimal.simps [simp del]

subsection \<open>A platform to evaluate examples on\<close>

text \<open>
  The \<open>URL\<close> constructor on the inputs of the examples: an http or https URL written
  as scheme, \<open>://\<close>, a host without credentials or port, and optionally a path, a query
  and a fragment, none of which needs normalising; or, against such a base, a path
  that starts with one \<open>/\<close>. It gives \<open>None\<close> on everything else, which is the
  constructor's TypeError only for the inputs used below (a relative path without a
  base, \<open>https://\<close> without a host).
\<close>

definition split_at :: "char \<Rightarrow> string \<Rightarrow> string \<times> string option" where
  "split_at c s =
     (if c \<in> set s
      then (takeWhile (\<lambda>x. x \<noteq> c) s, Some (drop 1 (dropWhile (\<lambda>x. x \<noteq> c) s)))
      else (s, None))"

definition with_path :: "url \<Rightarrow> string \<Rightarrow> url" where
  "with_path u s =
     (case split_at CHR ''#'' s of
        (s1, f) \<Rightarrow>
          (case split_at CHR ''?'' s1 of
             (p, q) \<Rightarrow>
               u\<lparr>pathname := (if p = [] then ''/'' else p), query := q, fragment := f\<rparr>))"

definition parse_after_scheme :: "string \<Rightarrow> string \<Rightarrow> url option" where
  "parse_after_scheme scheme rest =
     (let h = takeWhile (\<lambda>x. x \<noteq> CHR ''/'' \<and> x \<noteq> CHR ''?'' \<and> x \<noteq> CHR ''#'') rest;
          r = dropWhile (\<lambda>x. x \<noteq> CHR ''/'' \<and> x \<noteq> CHR ''?'' \<and> x \<noteq> CHR ''#'') rest
      in if h = [] then None
         else Some (with_path
                \<lparr>protocol = scheme, username = [], password = [], host = Some h, port = [],
                 pathname = [], query = None, fragment = None\<rparr> r))"

definition parse_absolute :: "string \<Rightarrow> url option" where
  "parse_absolute s =
     (if take 8 s = ''https://'' then parse_after_scheme ''https:'' (drop 8 s)
      else if take 7 s = ''http://'' then parse_after_scheme ''http:'' (drop 7 s)
      else None)"

definition URL_fragment :: "string \<Rightarrow> string option \<Rightarrow> url option" where
  "URL_fragment input base =
     (case parse_absolute input of
        Some u \<Rightarrow> Some u
      | None \<Rightarrow>
          (case base of
             None \<Rightarrow> None
           | Some b \<Rightarrow>
               (case parse_absolute b of
                  None \<Rightarrow> None
                | Some bu \<Rightarrow>
                    if take 1 input = ''/'' \<and> take 2 input \<noteq> ''//''
                    then Some (with_path bu input) else None)))"

definition example_platform :: platform where
  "example_platform =
     \<lparr>RegExp = RegExp_fragment, new_URL = URL_fragment,
      set_hostname = (\<lambda>u h. if h = [] then u else u\<lparr>host := Some h\<rparr>)\<rparr>"

definition https_url :: "string \<Rightarrow> string \<Rightarrow> string option \<Rightarrow> url" where
  "https_url h p q =
     \<lparr>protocol = ''https:'', username = [], password = [], host = Some h, port = [],
      pathname = p, query = q, fragment = None\<rparr>"

definition plain_rule :: "string \<Rightarrow> string \<Rightarrow> RedirectRule" where
  "plain_rule f t =
     \<lparr>rule_from = f, rule_to = t, status = None, preserveQuery = None,
      caseSensitive = None, domain = None\<rparr>"

definition get_request :: "url \<Rightarrow> request" where
  "get_request u = \<lparr>req_url = u, req_method = ''GET'', authorization = None\<rparr>"

definition no_env :: env where
  "no_env =
     \<lparr>FORCE_HTTPS = None, WWW_REDIRECT = None, GIST_CONFIG_URL = None, ADMIN_KEY = None\<rparr>"

definition gist_env :: env where
  "gist_env = no_env\<lparr>GIST_CONFIG_URL := Some ''https://gist.example/rules.json''\<rparr>"

definition unreachable :: "string \<Rightarrow> http_response option" where
  "unreachable source = None"

definition serving :: "RedirectRule list \<Rightarrow> string \<Rightarrow> http_response option" where
  "serving rules source = Some (HttpResponse True (Some (JArray rules)))"

section \<open>The rule provider\<close>

text \<open>
  C2: when a cached rule set exists and \<open>now\<close> minus its timestamp is strictly less
  than 300,000 ms, the cached set is returned and nothing is fetched. When the cache
  is absent or stale and a source URL is configured, exactly one fetch is made, and
  if it succeeds (ok status, body a JSON array with at least one element) the cache
  becomes the new set with timestamp \<open>now\<close> and the new set is returned.
\<close>

theorem load_rules_fresh_or_refresh:
  "(cachedRules c = Some cached \<and> now - cacheTimestamp c < 300000
      \<longrightarrow> load_rules e net now c = (cached, c, []))
   \<and> ((cachedRules c = None \<or> \<not> now - cacheTimestamp c < 300000)
        \<and> GIST_CONFIG_URL e = Some source \<and> source \<noteq> []
      \<longrightarrow> snd (snd (load_rules e net now c)) = [source]
          \<and> (net source = Some (HttpResponse True (Some (JArray fresh))) \<and> fresh \<noteq> []
               \<longrightarrow> load_rules e net now c
                   = (fresh, \<lparr>cachedRules = Some fresh, cacheTimestamp = now\<rparr>, [source])))"
  by (auto simp: load_rules_def CACHE_TTL_def truthy_def Let_def
           split: option.splits json_value.splits)

theorem load_rules_fresh_or_refresh_witness:
  "load_rules gist_env unreachable 299999
       \<lparr>cachedRules = Some [plain_rule ''/a'' ''/b''], cacheTimestamp = 0\<rparr>
     = ([plain_rule ''/a'' ''/b''],
        \<lparr>cachedRules = Some [plain_rule ''/a'' ''/b''], cacheTimestamp = 0\<rparr>, [])
   \<and> load_rules gist_env (serving [plain_rule ''/c'' ''/d'']) 300000
       \<lparr>cachedRules = Some [plain_rule ''/a'' ''/b''], cacheTimestamp = 0\<rparr>
     = ([plain_rule ''/c'' ''/d''],
        \<lparr>cachedRules = Some [plain_rule ''/c'' ''/d''], cacheTimestamp = 300000\<rparr>,
        [''https://gist.example/rules.json''])"
  using load_rules_fresh_or_refresh
          [where c = "\<lparr>cachedRules = Some [plain_rule ''/a'' ''/b''], cacheTimestamp = 0\<rparr>"
             and cached = "[plain_rule ''/a'' ''/b'']" and now = 299999 and e = gist_env
             and net = unreachable]
        load_rules_fresh_or_refresh
          [where c = "\<lparr>cachedRules = Some [plain_rule ''/a'' ''/b''], cacheTimestamp = 0\<rparr>"
             and now = 300000 and e = gist_env
             and source = "''https://gist.example/rules.json''"
             and net = "serving [plain_rule ''/c'' ''/d'']"
             and fresh = "[plain_rule ''/c'' ''/d'']"]
  by (simp add: gist_env_def no_env_def serving_def)

text \<open>
  C3: after a failed refresh attempt (source unreachable, status not a success, body
  that does not parse, body empty or not an array) the cache, rules and timestamp, is
  as before, and the rule set used for the request is the cached one if there is one
  and the compiled-in default set otherwise. The default set is never written into
  the cache: after any call the cache is what it was, or the array just fetched with
  the timestamp \<open>now\<close>.
\<close>

theorem failed_refresh_keeps_cache:
  "(\<not> cache_fresh c now \<and> GIST_CONFIG_URL e = Some source \<and> source \<noteq> []
      \<and> refresh_failure (net source)
     \<longrightarrow> load_rules e net now c
         = ((case cachedRules c of Some cached \<Rightarrow> cached | None \<Rightarrow> DEFAULT_REDIRECTS),
            c, [source]))
   \<and> (fst (snd (load_rules e net now c)) = c
      \<or> (\<exists>fresh. fresh \<noteq> []
            \<and> net (the (GIST_CONFIG_URL e)) = Some (HttpResponse True (Some (JArray fresh)))
            \<and> fst (snd (load_rules e net now c))
                = \<lparr>cachedRules = Some fresh, cacheTimestamp = now\<rparr>))"
proof (intro conjI impI)
  assume "\<not> cache_fresh c now \<and> GIST_CONFIG_URL e = Some source \<and> source \<noteq> []
      \<and> refresh_failure (net source)"
  then show "load_rules e net now c
         = ((case cachedRules c of Some cached \<Rightarrow> cached | None \<Rightarrow> DEFAULT_REDIRECTS),
            c, [source])"
    by (auto simp: load_rules_def CACHE_TTL_def truthy_def Let_def cache_fresh_def
          refresh_failure_def cached_or_default_def
          split: option.splits json_value.splits)
next
  show "fst (snd (load_rules e net now c)) = c
      \<or> (\<exists>fresh. fresh \<noteq> []
            \<and> net (the (GIST_CONFIG_URL e)) = Some (HttpResponse True (Some (JArray fresh)))
            \<and> fst (snd (load_rules e net now c))
                = \<lparr>cachedRules = Some fresh, cacheTimestamp = now\<rparr>)"
  proof (cases "net (the (GIST_CONFIG_URL e))")
    case None
    then show ?thesis
      by (auto simp: load_rules_def Let_def split: option.splits)
  next
    case (Some resp)
    obtain b j where "resp = HttpResponse b j"
      by (cases resp)
    with Some show ?thesis
      by (auto simp: load_rules_def Let_def split: option.splits json_value.splits)
  qed
qed

theorem failed_refresh_keeps_cache_witness:
  "load_rules gist_env unreachable 1000 initial_cache
     = (DEFAULT_REDIRECTS, initial_cache, [''https://gist.example/rules.json''])
   \<and> load_rules gist_env (serving []) 300000
       \<lparr>cachedRules = Some [plain_rule ''/a'' ''/b''], cacheTimestamp = 0\<rparr>
     = ([plain_rule ''/a'' ''/b''],
        \<lparr>cachedRules = Some [plain_rule ''/a'' ''/b''], cacheTimestamp = 0\<rparr>,
        [''https://gist.example/rules.json''])"
  using failed_refresh_keeps_cache
          [where c = initial_cache and now = 1000 and e = gist_env
             and source = "''https://gist.example/rules.json''" and net = unreachable]
        failed_refresh_keeps_cache
          [where c = "\<lparr>cachedRules = Some [plain_rule ''/a'' ''/b''], cacheTimestamp = 0\<rparr>"
             and now = 300000 and e = gist_env
             and source = "''https://gist.example/rules.json''" and net = "serving []"]
  by (simp add: gist_env_def no_env_def serving_def unreachable_def initial_cache_def
        cache_fresh_def refresh_failure_def)

section \<open>Preprocessing\<close>

text \<open>
  C8: an http request handled while FORCE_HTTPS is not \<open>'false'\<close> (enabled is the
  default) is answered at once with a 301 redirect to the same URL with the scheme
  https: same host, same path, same query. Nothing else is looked at: the answer does
  not depend on the www setting, the rules, the cache or the source, nothing is
  fetched and the cache is left as it is.
\<close>

theorem https_upgrade_first:
  "protocol (req_url req) = ''http:'' \<Longrightarrow> FORCE_HTTPS e \<noteq> Some ''false'' \<Longrightarrow>
   fetch P net now c e req
     = (Inr (Redirect (href (set_protocol_https (req_url req))) 301), c, [])
   \<and> protocol (set_protocol_https (req_url req)) = ''https:''
   \<and> hostname (set_protocol_https (req_url req)) = hostname (req_url req)
   \<and> pathname (set_protocol_https (req_url req)) = pathname (req_url req)
   \<and> search (set_protocol_https (req_url req)) = search (req_url req)"
  by (simp add: fetch_def preprocess_def set_protocol_https_def hostname_def search_def)

theorem https_upgrade_first_witness:
  "fetch example_platform (serving [plain_rule ''/test'' ''/elsewhere'']) 1000 initial_cache
     (gist_env\<lparr>FORCE_HTTPS := Some ''true'', WWW_REDIRECT := Some ''add''\<rparr>)
     (get_request ((https_url ''example.com'' ''/test'' (Some ''a=1''))\<lparr>protocol := ''http:''\<rparr>))
   = (Inr (Redirect ''https://example.com/test?a=1'' 301), initial_cache, [])"
  using https_upgrade_first
          [where req = "get_request
                   ((https_url ''example.com'' ''/test'' (Some ''a=1''))\<lparr>protocol := ''http:''\<rparr>)"
             and e = "gist_env\<lparr>FORCE_HTTPS := Some ''true'', WWW_REDIRECT := Some ''add''\<rparr>"
             and P = example_platform and now = 1000 and c = initial_cache
             and net = "serving [plain_rule ''/test'' ''/elsewhere'']"]
  by (simp add: get_request_def https_url_def gist_env_def no_env_def href_def
        set_protocol_https_def credentials_def port_suffix_def)

section \<open>Building the destination\<close>

lemma digit_char:
  "n < 10 \<Longrightarrow>
   is_digit (char_of (48 + n)) \<and> (of_char (char_of (48 + n) :: char) :: nat) - 48 = n"
  by (simp add: is_digit_def)

lemma decimal_digits: "\<forall>d \<in> set (decimal n). is_digit d"
proof (induction n rule: decimal.induct)
  case (1 n)
  show ?case
  proof (cases "n < 10")
    case True
    then show ?thesis by (subst decimal.simps) (simp add: digit_char)
  next
    case False
    with 1 show ?thesis by (subst decimal.simps) (simp add: digit_char)
  qed
qed

lemma decimal_not_empty: "decimal n \<noteq> []"
  by (subst decimal.simps) simp

lemma parseInt_snoc: "parseInt (ds @ [d]) = 10 * parseInt ds + ((of_char d :: nat) - 48)"
  by (simp add: parseInt_def)

lemma parseInt_decimal: "parseInt (decimal n) = n"
proof (induction n rule: decimal.induct)
  case (1 n)
  show ?case
  proof (cases "n < 10")
    case True
    then show ?thesis by (subst decimal.simps) (simp add: parseInt_def digit_char)
  next
    case False
    with 1 show ?thesis by (subst decimal.simps) (simp add: parseInt_snoc digit_char)
  qed
qed

lemma digits_then_other:
  assumes "b = [] \<or> \<not> is_digit (hd b)"
  shows "takeWhile is_digit (cs @ b) = takeWhile is_digit cs"
    and "dropWhile is_digit (cs @ b) = dropWhile is_digit cs @ b"
proof -
  from assms have b: "takeWhile is_digit b = []" "dropWhile is_digit b = b"
    by (cases b; auto)+
  show "takeWhile is_digit (cs @ b) = takeWhile is_digit cs"
    using b by (induction cs) auto
  show "dropWhile is_digit (cs @ b) = dropWhile is_digit cs @ b"
    using b by (induction cs) auto
qed

lemma substitute_append:
  "b = [] \<or> \<not> is_digit (hd b) \<Longrightarrow>
   substitute (a @ b) captures = substitute a captures @ substitute b captures"
proof (induction a captures rule: substitute.induct)
  case (1 captures)
  show ?case by simp
next
  case (2 c cs captures)
  then show ?case
    by (simp add: digits_then_other)
qed

lemma substitute_no_dollar: "CHR ''$'' \<notin> set s \<Longrightarrow> substitute s captures = s"
  by (induction s) auto

lemma capture_or_empty_nth: "capture_or_empty captures n = nth_capture captures n"
  by (auto simp: capture_or_empty_def nth_capture_def)

lemma substitute_placeholder:
  assumes "post = [] \<or> \<not> is_digit (hd post)"
  shows "substitute (CHR ''$'' # decimal n @ post) captures
           = nth_capture captures n @ substitute post captures"
proof -
  have all: "\<forall>d \<in> set (decimal n). is_digit d" by (rule decimal_digits)
  from assms have p: "takeWhile is_digit post = []" "dropWhile is_digit post = post"
    by (cases post; auto)+
  have tw: "takeWhile is_digit (decimal n @ post) = decimal n"
    using all p by (simp add: takeWhile_append)
  have dw: "dropWhile is_digit (decimal n @ post) = post"
    using all p by (simp add: dropWhile_append)
  show ?thesis
    by (simp add: tw dw decimal_not_empty parseInt_decimal capture_or_empty_nth)
qed

text \<open>
  C6: in \<open>rule.to\<close> every placeholder \<open>$N\<close> is replaced with the Nth capture of
  the match, or with the empty string when there is no capture with that index; the
  text before and after a placeholder is treated the same way, and text without
  \<open>$\<close> is kept. In particular the pattern \<open>/blog/*\<close> with
  \<open>to = /articles/$1\<close> takes the path \<open>/blog/my-post\<close> to
  \<open>/articles/my-post\<close>.
\<close>

theorem placeholders_replaced:
  "((post = [] \<or> \<not> is_digit (hd post)) \<longrightarrow>
      substitute (pre @ ''$'' @ decimal n @ post) captures
        = substitute pre captures
          @ (if 1 \<le> n \<and> n \<le> length captures
             then (case captures ! (n - 1) of Some s \<Rightarrow> s | None \<Rightarrow> []) else [])
          @ substitute post captures)
   \<and> (CHR ''$'' \<notin> set pre \<longrightarrow> substitute pre captures = pre)
   \<and> matchPath RegExp_fragment ''/blog/my-post'' ''/blog/*'' True = Inr (Some [Some ''my-post''])
   \<and> substitute ''/articles/$1'' [Some ''my-post''] = ''/articles/my-post''
   \<and> resolve example_platform (https_url ''example.com'' ''/blog/my-post'' None)
        [plain_rule ''/blog/*'' ''/articles/$1'']
       = Inr (Some (Redirect ''https://example.com/articles/my-post'' 301))"
proof (intro conjI impI)
  assume h: "post = [] \<or> \<not> is_digit (hd post)"
  have shape: "pre @ ''$'' @ decimal n @ post = pre @ (CHR ''$'' # decimal n @ post)"
    by simp
  have split: "substitute (pre @ (CHR ''$'' # decimal n @ post)) captures
          = substitute pre captures @ substitute (CHR ''$'' # decimal n @ post) captures"
    by (rule substitute_append) (simp add: is_digit_def)
  have here: "substitute (CHR ''$'' # decimal n @ post) captures
          = nth_capture captures n @ substitute post captures"
    using h by (rule substitute_placeholder)
  show "substitute (pre @ ''$'' @ decimal n @ post) captures
        = substitute pre captures
          @ (if 1 \<le> n \<and> n \<le> length captures
             then (case captures ! (n - 1) of Some s \<Rightarrow> s | None \<Rightarrow> []) else [])
          @ substitute post captures"
    by (simp only: shape split here nth_capture_def)
next
  assume "CHR ''$'' \<notin> set pre"
  then show "substitute pre captures = pre" by (rule substitute_no_dollar)
next
  show "matchPath RegExp_fragment ''/blog/my-post'' ''/blog/*'' True = Inr (Some [Some ''my-post''])"
    by code_simp
next
  show "substitute ''/articles/$1'' [Some ''my-post''] = ''/articles/my-post''"
    by code_simp
next
  show "resolve example_platform (https_url ''example.com'' ''/blog/my-post'' None)
        [plain_rule ''/blog/*'' ''/articles/$1'']
       = Inr (Some (Redirect ''https://example.com/articles/my-post'' 301))"
    by code_simp
qed

theorem placeholders_replaced_witness:
  "substitute ''/articles/$1'' [Some ''my-post''] = ''/articles/my-post''
   \<and> substitute ''/articles/$2'' [Some ''my-post''] = ''/articles/''"
  using placeholders_replaced [where pre = "''/articles/''" and n = 1 and post = "[]"
          and captures = "[Some ''my-post'']", THEN conjunct1]
        placeholders_replaced [where pre = "''/articles/''" and n = 2 and post = "[]"
          and captures = "[Some ''my-post'']", THEN conjunct1]
  by (simp add: is_digit_def parseInt_def capture_or_empty_def)

lemma set_search_of_search:
  "search u \<noteq> [] \<Longrightarrow> set_search d (search u) = d\<lparr>query := query u\<rparr>"
  by (auto simp: search_def set_search_def split: option.splits if_splits)

lemma search_copied: "search (d\<lparr>query := query u\<rparr>) = search u"
  by (simp add: search_def)

text \<open>
  C7: for a matched rule whose \<open>preserveQuery\<close> is not explicitly false and a
  request with a non-empty query string, the query of the destination URL becomes
  exactly the query of the request, whatever query the \<open>to\<close> template had (it is
  overwritten, not merged). When \<open>preserveQuery\<close> is explicitly false or the request
  has no query, the destination keeps the query the template gave it. The redirect is
  sent to the serialized destination.
\<close>

theorem query_preserved:
  "parse_destination P u (substitute (rule_to r) captures) = Some d \<Longrightarrow>
   (preserveQuery r \<noteq> Some False \<and> search u \<noteq> []
      \<longrightarrow> destination P u r captures = Some (d\<lparr>query := query u\<rparr>)
          \<and> search (d\<lparr>query := query u\<rparr>) = search u)
   \<and> (preserveQuery r = Some False \<or> search u = []
      \<longrightarrow> destination P u r captures = Some d)
   \<and> build_redirect P u r captures
       = Response_redirect (href (the (destination P u r captures))) (status_or_default r)"
  by (auto simp: destination_def with_query_def set_search_of_search build_redirect_def
        search_copied)

theorem query_preserved_witness:
  "resolve example_platform (https_url ''example.com'' ''/old-page'' (Some ''test=123''))
     [plain_rule ''/old-page'' ''/new-page?x=1'']
     = Inr (Some (Redirect ''https://example.com/new-page?test=123'' 301))
   \<and> resolve example_platform (https_url ''example.com'' ''/old-page'' (Some ''test=123''))
     [(plain_rule ''/old-page'' ''/new-page?x=1'')\<lparr>preserveQuery := Some False\<rparr>]
     = Inr (Some (Redirect ''https://example.com/new-page?x=1'' 301))"
proof -
  let ?u = "https_url ''example.com'' ''/old-page'' (Some ''test=123'')"
  let ?r = "plain_rule ''/old-page'' ''/new-page?x=1''"
  let ?d = "https_url ''example.com'' ''/new-page'' (Some ''x=1'')"
  have p: "parse_destination example_platform ?u (substitute (rule_to ?r) []) = Some ?d"
    by code_simp
  have p': "parse_destination example_platform ?u
              (substitute (rule_to (?r\<lparr>preserveQuery := Some False\<rparr>)) []) = Some ?d"
    by code_simp
  have m: "rule_match example_platform ?u ?r = Inr (Some [])"
    "rule_match example_platform ?u (?r\<lparr>preserveQuery := Some False\<rparr>) = Inr (Some [])"
    by code_simp+
  have s: "search ?u = ''?test=123''" by code_simp
  have b1: "build_redirect example_platform ?u ?r []
              = Inr (Redirect ''https://example.com/new-page?test=123'' 301)"
    using query_preserved [OF p] s
    by (simp add: plain_rule_def https_url_def Response_redirect_def status_or_default_def
          href_def credentials_def port_suffix_def)
  have b2: "build_redirect example_platform ?u (?r\<lparr>preserveQuery := Some False\<rparr>) []
              = Inr (Redirect ''https://example.com/new-page?x=1'' 301)"
    using query_preserved [OF p'] s
    by (simp add: plain_rule_def https_url_def Response_redirect_def status_or_default_def
          href_def credentials_def port_suffix_def)
  show ?thesis
    using m b1 b2 by (simp add: skipped_by_domain_def truthy_def plain_rule_def)
qed

section \<open>The pattern matcher\<close>

lemma replace_all_append:
  "replace_all c rep (a @ b) = replace_all c rep a @ replace_all c rep b"
  by (simp add: replace_all_def)

lemma literal_translation:
  "replace_all CHR ''/'' [bslash, CHR ''/''] (replace_all CHR ''*'' ''(.*)'' p)
     = concat (map translate_char p)"
proof (induction p)
  case Nil
  show ?case by (simp add: replace_all_def)
next
  case (Cons c p)
  have "replace_all CHR ''*'' ''(.*)'' (c # p)
          = (if c = CHR ''*'' then ''(.*)'' else [c]) @ replace_all CHR ''*'' ''(.*)'' p"
    by (simp add: replace_all_def)
  moreover have "replace_all CHR ''/'' [bslash, CHR ''/''] (if c = CHR ''*'' then ''(.*)'' else [c])
          = translate_char c"
    by (simp add: replace_all_def translate_char_def)
  ultimately show ?case
    using Cons.IH by (simp only: replace_all_append list.map concat.simps)
qed

lemma regexPattern_literal:
  "\<not> (CHR ''('' \<in> set p \<and> CHR '')'' \<in> set p) \<Longrightarrow> regexPattern p = concat (map translate_char p)"
  by (auto simp: regexPattern_def str_includes_def literal_translation)



lemma slash_is_plain:
  "escape_token CHR ''/'' = TChar CHR ''/''" "plain_token CHR ''/'' = TChar CHR ''/''"
  "class_escape CHR ''/'' = Inr (Single CHR ''/'')"
  "CHR ''/'' \<noteq> bslash"
  by (simp_all add: escape_token_def plain_token_def class_escape_def set_escape_def
        control_escape_def is_letter_def is_digit_def bslash_def)

lemma scan_escaped_slash:
  "bslash \<notin> set before \<Longrightarrow>
   scan st (before @ bslash # CHR ''/'' # after) = scan st (before @ CHR ''/'' # after)"
proof (induction "length before" arbitrary: before st rule: less_induct)
  case less
  show ?case
  proof (cases before)
    case Nil
    show ?thesis
    proof (cases st)
      case None
      with Nil show ?thesis by (simp add: slash_is_plain)
    next
      case (Some cl)
      obtain negated start atoms where "cl = (negated, start, atoms)"
        by (cases cl)
      with Nil Some show ?thesis by (simp add: slash_is_plain)
    qed
  next
    case (Cons c rest)
    with less.prems have c: "c \<noteq> bslash" and rest: "bslash \<notin> set rest"
      by auto
    have ih: "scan st' (rest @ bslash # CHR ''/'' # after) = scan st' (rest @ CHR ''/'' # after)"
      for st'
      using less.hyps [of rest st'] Cons rest by simp
    show ?thesis
    proof (cases st)
      case (Some cl)
      obtain negated start atoms where "cl = (negated, start, atoms)"
        by (cases cl)
      with Cons Some c ih show ?thesis by (simp split: sum.splits)
    next
      case None
      show ?thesis
      proof (cases "c = CHR ''(''")
        case False
        with Cons None c ih show ?thesis by simp
      next
        case True
        show ?thesis
        proof (cases rest)
          case Nil
          with Cons None True c show ?thesis by (simp add: slash_is_plain bslash_def)
        next
          case (Cons q rest')
          note q = this
          show ?thesis
          proof (cases "q = CHR ''?''")
            case False
            with \<open>before = c # rest\<close> None True c ih q show ?thesis by simp
          next
            case quest: True
            show ?thesis
            proof (cases rest')
              case Nil
              with \<open>before = c # rest\<close> None True c q quest show ?thesis
                by (simp add: bslash_def)
            next
              case (Cons k rest'')
              have "bslash \<notin> set rest''"
                using rest q Cons by simp
              then have "scan None (rest'' @ bslash # CHR ''/'' # after)
                           = scan None (rest'' @ CHR ''/'' # after)"
                using less.hyps [of rest'' None] \<open>before = c # rest\<close> q Cons by simp
              with \<open>before = c # rest\<close> None True c q quest Cons show ?thesis
                by simp
            qed
          qed
        qed
      qed
    qed
  qed
qed

lemma fragment_reads_escaped_slash: "reads_escaped_slash RegExp_fragment"
  by (simp add: reads_escaped_slash_def RegExp_fragment_def parse_def tokens_def
        scan_escaped_slash)

lemma escaped_slashes:
  assumes "reads_escaped_slash engine" and "flags = [] \<or> flags = ''i''"
  shows "bslash \<notin> set (a @ s) \<Longrightarrow>
         engine (a @ replace_all CHR ''/'' [bslash, CHR ''/''] s @ t) flags
           = engine (a @ s @ t) flags"
proof (induction s arbitrary: a)
  case Nil
  show ?case by (simp add: replace_all_def)
next
  case (Cons c s)
  have tail: "engine ((a @ [c]) @ replace_all CHR ''/'' [bslash, CHR ''/''] s @ t) flags
                = engine ((a @ [c]) @ s @ t) flags"
    using Cons.prems by (intro Cons.IH) simp
  show ?case
  proof (cases "c = CHR ''/''")
    case True
    have "engine (a @ bslash # CHR ''/'' # (replace_all CHR ''/'' [bslash, CHR ''/''] s @ t)) flags
            = engine (a @ CHR ''/'' # (replace_all CHR ''/'' [bslash, CHR ''/''] s @ t)) flags"
      using assms Cons.prems by (simp add: reads_escaped_slash_def)
    with tail True show ?thesis
      by (simp add: replace_all_def)
  next
    case False
    with tail show ?thesis
      by (simp add: replace_all_def)
  qed
qed

lemma star_translation_no_bslash:
  "bslash \<notin> set p \<Longrightarrow> bslash \<notin> set (replace_all CHR ''*'' ''(.*)'' p)"
  by (induction p) (auto simp: replace_all_def bslash_def)

lemma spec_pattern_replace:
  "spec_pattern p = (if CHR ''('' \<in> set p \<and> CHR '')'' \<in> set p then p
                     else replace_all CHR ''*'' ''(.*)'' p)"
  by (simp add: spec_pattern_def replace_all_def)

lemma engine_source_escaped:
  assumes "reads_escaped_slash engine" and "bslash \<notin> set p"
    and "flags = [] \<or> flags = ''i''"
  shows "engine (''^'' @ regexPattern p @ ''$'') flags
           = engine (''^'' @ spec_pattern p @ ''$'') flags"
proof (cases "CHR ''('' \<in> set p \<and> CHR '')'' \<in> set p")
  case True
  then show ?thesis
    by (simp add: regexPattern_def str_includes_def spec_pattern_replace)
next
  case False
  have "bslash \<notin> set (''^'' @ replace_all CHR ''*'' ''(.*)'' p)"
    using star_translation_no_bslash [OF assms(2)] by (simp add: bslash_def)
  from escaped_slashes [OF assms(1) assms(3) this, of "''$''"] False show ?thesis
    by (auto simp: regexPattern_def str_includes_def spec_pattern_replace)
qed

lemma drop_1_tl: "drop (Suc 0) m = tl m"
  by (cases m) simp_all

lemma mk_seq_Cons: "rs \<noteq> [] \<Longrightarrow> mk_seq (r # rs) = Seq r (mk_seq rs)"
  by (cases rs) simp_all

lemma run_ends_at_Eol:
  "st' \<in> set (run ic n (mk_seq (rs @ [Eol])) st) \<Longrightarrow> fst st' = []"
proof (induction rs arbitrary: st st')
  case Nil
  then show ?case by (cases st) (auto split: if_splits)
next
  case (Cons r rs)
  obtain s caps where st: "st = (s, caps)" by (cases st)
  from Cons.prems st obtain mid where
    "mid \<in> set (run ic n r (s, caps))" "st' \<in> set (run ic n (mk_seq (rs @ [Eol])) mid)"
    by (auto simp: mk_seq_Cons)
  then show ?case by (auto dest: Cons.IH)
qed

lemma run_starts_at_Bol:
  "length (fst st) \<noteq> n \<Longrightarrow> run ic n (mk_seq (Bol # rs @ [Eol])) st = []"
  by (cases st) (simp add: mk_seq_Cons)

lemma match_from_later:
  "length s < n \<Longrightarrow> match_from ic (mk_seq (Bol # rs @ [Eol])) g n s = None"
proof (induction s)
  case Nil
  then show ?case
    by (subst match_from.simps) (simp add: run_starts_at_Bol)
next
  case (Cons c s)
  then show ?case
    by (subst match_from.simps) (simp add: run_starts_at_Bol)
qed

lemma match_from_whole:
  assumes "match_from ic (mk_seq (Bol # rs @ [Eol])) g (length input) input = Some m"
  shows "\<exists>caps. m = Some input # caps"
proof (cases "run ic (length input) (mk_seq (Bol # rs @ [Eol])) (input, replicate g None)")
  case Nil
  have "match_from ic (mk_seq (Bol # rs @ [Eol])) g (length input) input = None"
  proof (cases input)
    case empty: Nil
    with Nil show ?thesis
      by (subst match_from.simps) simp
  next
    case (Cons c s)
    have "match_from ic (mk_seq (Bol # rs @ [Eol])) g (length input) s = None"
      using Cons by (intro match_from_later) simp
    with Nil Cons show ?thesis
      by (subst match_from.simps) simp
  qed
  with assms show ?thesis by simp
next
  case (Cons st sts)
  then have "st \<in> set (run ic (length input) (mk_seq ((Bol # rs) @ [Eol]))
                         (input, replicate g None))"
    by simp
  then have "fst st = []" by (rule run_ends_at_Eol)
  with Cons assms show ?thesis
    by (subst (asm) match_from.simps) auto
qed

lemma quantify_keeps_last:
  "quantify quest lo hi terms = Inr terms' \<Longrightarrow> terms \<noteq> [] \<Longrightarrow> last terms = (Bol, KAssertion)
   \<Longrightarrow> terms' \<noteq> [] \<and> last terms' = (Bol, KAssertion)"
  by (induction quest lo hi terms rule: quantify.induct) (auto split: if_splits)

lemma anchored_quantified:
  "anchored_frames (g, alts, terms) stack \<Longrightarrow> quantify quest lo hi terms = Inr terms'
   \<Longrightarrow> anchored_frames (g, alts, terms') stack"
  by (cases "stack = []") (auto simp: anchored_frames_def dest: quantify_keeps_last)

lemma anchored_pushed:
  "anchored_frames (g, alts, terms) stack \<Longrightarrow> anchored_frames (g, alts, x # terms) stack"
  by (cases "stack = []") (auto simp: anchored_frames_def)

lemma anchored_opened:
  "anchored_frames cur stack \<Longrightarrow> anchored_frames new (cur # stack)"
  by (simp add: anchored_frames_def)

lemma anchored_closed:
  "anchored_frames cur ((g, alts, terms) # stack)
   \<Longrightarrow> anchored_frames (g, alts, x # terms) stack"
  by (cases "stack = []") (auto simp: anchored_frames_def)

lemma anchored_bar:
  "anchored_frames (g, alts, terms) stack \<Longrightarrow> stack \<noteq> []
   \<Longrightarrow> anchored_frames (g, alts', terms') stack"
  by (simp add: anchored_frames_def)

lemma anchored_result:
  assumes "anchored_frames (g, alts, terms) []"
  shows "\<exists>rs. close_frame alts ((Eol, KAssertion) # terms) = mk_seq (Bol # rs @ [Eol])"
proof -
  from assms have a: "alts = []" and t: "terms \<noteq> []" and l: "last terms = (Bol, KAssertion)"
    by (simp_all add: anchored_frames_def)
  from t have "terms = butlast terms @ [last terms]"
    by simp
  with l have e: "terms = butlast terms @ [(Bol, KAssertion)]"
    by simp
  have "rev (map fst terms) = Bol # rev (map fst (butlast terms))"
    by (subst e) simp
  with a have "close_frame alts ((Eol, KAssertion) # terms)
                 = mk_seq (Bol # rev (map fst (butlast terms)) @ [Eol])"
    by (simp add: close_frame_def close_alternative_def)
  then show ?thesis
    by blast
qed

lemma parse_anchored:
  "parse_tokens ts n cur stack = Parsed r k \<Longrightarrow> ts \<noteq> [] \<Longrightarrow> last ts = TEol
   \<Longrightarrow> \<not> bar_outside_groups (length stack) ts \<Longrightarrow> anchored_frames cur stack
   \<Longrightarrow> \<exists>rs. r = mk_seq (Bol # rs @ [Eol])"
proof (induction ts n cur stack rule: parse_tokens.induct)
  case (1 n g alts terms stack)
  then show ?case by simp
next
  case (6 ts n g alts terms stack)
  show ?case
  proof (cases "ts = []")
    case True
    with "6.prems" have "stack = []" and "r = close_frame alts ((Eol, KAssertion) # terms)"
      by (auto split: if_splits)
    with "6.prems"(5) show ?thesis
      using anchored_result by auto
  next
    case False
    with 6 show ?thesis by (auto intro: anchored_pushed)
  qed
next
  case (11 ts n g alts terms stack)
  then show ?case by (auto split: if_splits intro: anchored_bar)
next
  case (12 ts n g alts terms stack)
  then show ?case by (auto split: if_splits intro: anchored_opened)
next
  case (13 ts n g alts terms stack)
  then show ?case by (auto split: if_splits intro: anchored_opened)
next
  case (14 ts n g alts terms stack)
  from "14.prems"(1) obtain g' alts' terms' stack' where
    st: "stack = (g', alts', terms') # stack'"
    by (cases stack) auto
  let ?cur = "(g', alts', (closed_group g (close_frame alts terms), KAtom) # terms')"
  from "14.prems"(1) st have p: "parse_tokens ts n ?cur stack' = Parsed r k"
    by simp
  from "14.prems"(2,3) have ne: "ts \<noteq> []" and la: "last ts = TEol"
    by (auto split: if_splits)
  from "14.prems"(4) st have b: "\<not> bar_outside_groups (length stack') ts"
    by simp
  from "14.prems"(5) st have a: "anchored_frames ?cur stack'"
    by (auto intro: anchored_closed)
  from "14.IH" st p ne la b a show ?case
    by auto
next
  case (2 c ts n g alts terms stack)
  then show ?case by (auto split: if_splits intro: anchored_pushed)
next
  case (3 ts n g alts terms stack)
  then show ?case by (auto split: if_splits intro: anchored_pushed)
next
  case (4 negated items ts n g alts terms stack)
  then show ?case by (auto split: if_splits intro: anchored_pushed)
next
  case (5 ts n g alts terms stack)
  then show ?case by (auto split: if_splits intro: anchored_pushed)
next
  case (7 ts n g alts terms stack)
  then show ?case
    by (auto split: sum.splits if_splits intro: anchored_quantified simp: parse_error_def)
next
  case (8 ts n g alts terms stack)
  then show ?case
    by (auto split: sum.splits if_splits intro: anchored_quantified simp: parse_error_def)
next
  case (9 ts n g alts terms stack)
  then show ?case
    by (auto split: sum.splits if_splits intro: anchored_quantified simp: parse_error_def)
next
  case (10 lo hi ts n g alts terms stack)
  then show ?case
    by (auto split: sum.splits if_splits intro: anchored_quantified simp: parse_error_def)
next
  case (15 ts n g alts terms stack)
  then show ?case by (auto split: if_splits intro: anchored_pushed)
next
  case (16 ts n g alts terms stack)
  then show ?case by (auto split: if_splits intro: anchored_pushed)
next
  case (17 ts n g alts terms stack)
  then show ?case by (auto split: if_splits intro: anchored_pushed)
next
  case (18 e ts n g alts terms stack)
  then show ?case by (auto simp: parse_error_def split: if_splits)
qed


lemma tokens_start: "tokens (''^'' @ x) = TBol # braces Idle (scan None x)"
  by (simp add: tokens_def plain_token_def bslash_def idle_step_def)

lemma fragment_anchored:
  assumes "last (tokens (''^'' @ body @ ''$'')) = TEol"
    and "\<not> bar_outside_groups 0 (tokens (''^'' @ body @ ''$''))"
    and "RegExp_fragment (''^'' @ body @ ''$'') flags = Inr regex"
    and "regex path = Some m"
  shows "\<exists>caps. m = Some path # caps"
proof -
  let ?T = "braces Idle (scan None (body @ ''$''))"
  have t: "tokens (''^'' @ body @ ''$'') = TBol # ?T"
    by (rule tokens_start)
  from assms(1) t have ne: "?T \<noteq> []" and la: "last ?T = TEol"
    by (auto split: if_splits)
  from assms(2) t have nb: "\<not> bar_outside_groups (length ([] :: frame list)) ?T"
    by simp
  have an: "anchored_frames (0, [], [(Bol, KAssertion)]) []"
    by (simp add: anchored_frames_def)
  from assms(3) obtain r g where
    p: "parse (''^'' @ body @ ''$'') = Parsed r g"
    and regex: "regex = (\<lambda>input. match_from (flags = ''i'') r g (length input) input)"
    by (auto simp: RegExp_fragment_def split: parse_result.splits)
  from p t have "parse_tokens ?T 0 (0, [], [(Bol, KAssertion)]) [] = Parsed r g"
    by (simp add: parse_def)
  from parse_anchored [OF this ne la nb an] obtain rs where "r = mk_seq (Bol # rs @ [Eol])"
    by blast
  with assms(4) regex show ?thesis
    by (auto dest: match_from_whole)
qed

text \<open>
  C4, as the code has it: a pattern with at least one \<open>(\<close> and at least one
  \<open>)\<close> is handed to the engine as it is; in any other pattern each \<open>*\<close>
  becomes \<open>(.*)\<close> and each \<open>/\<close> becomes the escaped \<open>\/\<close>. The engine gets
  the result between \<open>^\<close> and \<open>$\<close>. A match gives the captures in order without
  the whole match, anything else gives no-match. For a pattern without a backslash,
  and an engine that reads an escaped slash as a slash, the escaping changes nothing:
  the result is the one of matching the pattern with only its \<open>*\<close> translated; the
  modelled engine is such an engine. The match is anchored to the whole path, that
  is, what the engine matched is the entire path, when the expression handed to the
  engine has no \<open>|\<close> outside its groups and its last \<open>$\<close> is read as the end
  assertion.
\<close>

theorem matchPath_translation:
  "matchPath engine path pattern sensitive
     = (case engine (''^''
                     @ (if CHR ''('' \<in> set pattern \<and> CHR '')'' \<in> set pattern then pattern
                        else concat (map translate_char pattern))
                     @ ''$'')
              (if sensitive then [] else ''i'') of
          Inl e \<Rightarrow> Inl e
        | Inr regex \<Rightarrow>
            (case regex path of None \<Rightarrow> Inr None | Some m \<Rightarrow> Inr (Some (tl m))))
   \<and> (reads_escaped_slash engine \<and> bslash \<notin> set pattern
        \<longrightarrow> matchPath engine path pattern sensitive = spec_match engine path pattern sensitive)
   \<and> reads_escaped_slash RegExp_fragment
   \<and> (last (tokens (''^'' @ regexPattern pattern @ ''$'')) = TEol
        \<and> \<not> bar_outside_groups 0 (tokens (''^'' @ regexPattern pattern @ ''$''))
        \<and> matchPath RegExp_fragment path pattern sensitive = Inr (Some captures)
      \<longrightarrow> (case RegExp_fragment (''^'' @ regexPattern pattern @ ''$'')
                    (if sensitive then [] else ''i'') of
              Inl e \<Rightarrow> False
            | Inr regex \<Rightarrow> regex path = Some (Some path # captures)))"
proof (intro conjI impI)
  have rp: "regexPattern pattern
              = (if CHR ''('' \<in> set pattern \<and> CHR '')'' \<in> set pattern then pattern
                 else concat (map translate_char pattern))"
    by (auto simp: regexPattern_literal) (simp add: regexPattern_def str_includes_def)
  show "matchPath engine path pattern sensitive
     = (case engine (''^''
                     @ (if CHR ''('' \<in> set pattern \<and> CHR '')'' \<in> set pattern then pattern
                        else concat (map translate_char pattern))
                     @ ''$'')
              (if sensitive then [] else ''i'') of
          Inl e \<Rightarrow> Inl e
        | Inr regex \<Rightarrow>
            (case regex path of None \<Rightarrow> Inr None | Some m \<Rightarrow> Inr (Some (tl m))))"
    unfolding matchPath_def Let_def rp [symmetric]
    by (auto simp: drop_1_tl split: sum.splits option.splits)
next
  assume "reads_escaped_slash engine \<and> bslash \<notin> set pattern"
  then have "engine (''^'' @ regexPattern pattern @ ''$'') (if sensitive then [] else ''i'')
           = engine (''^'' @ spec_pattern pattern @ ''$'') (if sensitive then [] else ''i'')"
    by (intro engine_source_escaped) simp_all
  then show "matchPath engine path pattern sensitive = spec_match engine path pattern sensitive"
    unfolding matchPath_def spec_match_def Let_def
    by (auto simp: drop_1_tl split: sum.splits option.splits)
next
  show "reads_escaped_slash RegExp_fragment"
    by (rule fragment_reads_escaped_slash)
next
  let ?source = "''^'' @ regexPattern pattern @ ''$''"
  let ?flags = "if sensitive then [] else ''i''"
  assume h: "last (tokens ?source) = TEol
        \<and> \<not> bar_outside_groups 0 (tokens ?source)
        \<and> matchPath RegExp_fragment path pattern sensitive = Inr (Some captures)"
  then obtain regex m where
    regex: "RegExp_fragment ?source ?flags = Inr regex"
    and m: "regex path = Some m" and c: "captures = drop 1 m"
    by (auto simp: matchPath_def Let_def split: sum.splits option.splits if_splits)
  from h regex m obtain caps where "m = Some path # caps"
    using fragment_anchored [of "regexPattern pattern" ?flags regex path m] by blast
  with regex m c show "case RegExp_fragment ?source ?flags of
              Inl e \<Rightarrow> False
            | Inr regex \<Rightarrow> regex path = Some (Some path # captures)"
    by simp
qed

theorem matchPath_translation_witness:
  "matchPath RegExp_fragment ''/blog/x'' ''/blog/*'' True = Inr (Some [Some ''x''])
   \<and> spec_match RegExp_fragment ''/blog/x'' ''/blog/*'' True = Inr (Some [Some ''x''])
   \<and> (case RegExp_fragment (''^'' @ regexPattern ''/blog/*'' @ ''$'') [] of
         Inl e \<Rightarrow> None
       | Inr regex \<Rightarrow> regex ''/blog/x'')
      = Some [Some ''/blog/x'', Some ''x'']
   \<and> (case RegExp_fragment (''^'' @ regexPattern ''/v[0-9]{1,2}/(a|b)'' @ ''$'') ''i'' of
         Inl e \<Rightarrow> None
       | Inr regex \<Rightarrow> regex ''/V12/B'')
      = Some [Some ''/V12/B'', Some ''B'']"
proof -
  have b: "bslash \<notin> set ''/blog/*''" by (simp add: bslash_def)
  have s: "spec_match RegExp_fragment ''/blog/x'' ''/blog/*'' True = Inr (Some [Some ''x''])"
    by code_simp
  have eq: "matchPath RegExp_fragment ''/blog/x'' ''/blog/*'' True
              = spec_match RegExp_fragment ''/blog/x'' ''/blog/*'' True"
    using matchPath_translation [where engine = RegExp_fragment and pattern = "''/blog/*''"
            and path = "''/blog/x''" and sensitive = True] b
    by blast
  have l: "last (tokens (''^'' @ regexPattern ''/blog/*'' @ ''$'')) = TEol"
    by code_simp
  have nb: "\<not> bar_outside_groups 0 (tokens (''^'' @ regexPattern ''/blog/*'' @ ''$''))"
    by code_simp
  have whole: "case RegExp_fragment (''^'' @ regexPattern ''/blog/*'' @ ''$'') [] of
                 Inl e \<Rightarrow> False
               | Inr regex \<Rightarrow> regex ''/blog/x'' = Some [Some ''/blog/x'', Some ''x'']"
    using matchPath_translation [where engine = RegExp_fragment and pattern = "''/blog/*''"
            and path = "''/blog/x''" and sensitive = True and captures = "[Some ''x'']"]
          l nb eq s
    by simp
  have l': "last (tokens (''^'' @ regexPattern ''/v[0-9]{1,2}/(a|b)'' @ ''$'')) = TEol"
    by code_simp
  have nb': "\<not> bar_outside_groups 0
                 (tokens (''^'' @ regexPattern ''/v[0-9]{1,2}/(a|b)'' @ ''$''))"
    by code_simp
  have m': "matchPath RegExp_fragment ''/V12/B'' ''/v[0-9]{1,2}/(a|b)'' False
              = Inr (Some [Some ''B''])"
    by code_simp
  have whole': "case RegExp_fragment (''^'' @ regexPattern ''/v[0-9]{1,2}/(a|b)'' @ ''$'') ''i'' of
                  Inl e \<Rightarrow> False
                | Inr regex \<Rightarrow> regex ''/V12/B'' = Some [Some ''/V12/B'', Some ''B'']"
    using matchPath_translation [where engine = RegExp_fragment
            and pattern = "''/v[0-9]{1,2}/(a|b)''" and path = "''/V12/B''"
            and sensitive = False and captures = "[Some ''B'']"]
          l' nb' m'
    by simp
  from eq s whole whole' show ?thesis
    by (auto split: sum.splits)
qed

text \<open>
  C4 as it is worded fails in three places. Translating only \<open>*\<close> is not what the
  code does when a backslash stands before a \<open>/\<close>: the pattern \<open>\/a\<close> would
  match the path \<open>/a\<close>, and the code hands \<open>^\\/a$\<close> to the engine, which does
  not. The match is not anchored to the whole path when the pattern has a \<open>|\<close>
  outside a group: \<open>/a|/b\<close> matches \<open>/a/anything/else\<close>, of which the engine
  matched \<open>/a\<close>. Nor is it when the pattern ends with a backslash, which escapes
  the \<open>$\<close>: \<open>/a\\<close> matches \<open>/a$x\<close>, of which the engine matched
  \<open>/a$\<close>.
\<close>

theorem matchPath_translation_counterexample:
  "matchPath RegExp_fragment ''/a'' [bslash, CHR ''/'', CHR ''a''] True = Inr None
   \<and> spec_match RegExp_fragment ''/a'' [bslash, CHR ''/'', CHR ''a''] True = Inr (Some [])
   \<and> matchPath RegExp_fragment ''/a/anything/else'' ''/a|/b'' True = Inr (Some [])
   \<and> (case RegExp_fragment (''^'' @ regexPattern ''/a|/b'' @ ''$'') [] of
         Inl e \<Rightarrow> None
       | Inr regex \<Rightarrow> regex ''/a/anything/else'')
      = Some [Some ''/a'']
   \<and> matchPath RegExp_fragment ''/a$x'' (''/a'' @ [bslash]) True = Inr (Some [])
   \<and> (case RegExp_fragment (''^'' @ regexPattern (''/a'' @ [bslash]) @ ''$'') [] of
         Inl e \<Rightarrow> None
       | Inr regex \<Rightarrow> regex ''/a$x'')
      = Some [Some ''/a$'']"
  by code_simp

section \<open>The resolver\<close>

lemma resolve_passed_over:
  "\<forall>x \<in> set before. passed_over P u x \<Longrightarrow> resolve P u (before @ rest) = resolve P u rest"
  by (induction before) (auto simp: passed_over_def)

lemma resolve_None_iff:
  "resolve P u rules = Inr None \<longleftrightarrow> (\<forall>x \<in> set rules. passed_over P u x)"
  by (induction rules) (auto simp: passed_over_def split: sum.splits option.splits)

lemma resolve_Some_is_redirect:
  "resolve P u rules = Inr (Some resp) \<Longrightarrow> is_redirect resp"
  by (induction rules)
     (auto simp: build_redirect_def Response_redirect_def is_redirect_def
           split: sum.splits option.splits if_splits)

text \<open>
  C1, as the code has it: when every rule before a rule is passed over (skipped by
  its domain, or its pattern compiles and does not match) and that rule is not
  skipped and matches, the resolver returns what building the redirect from that
  rule gives, whatever rules follow. When instead the pattern of that rule makes the
  engine throw, the exception ends the resolution. A rule is skipped exactly when its
  \<open>domain\<close> is a non-empty string different from the request's hostname, and a
  skipped rule has no effect, whatever its pattern is.
\<close>

theorem first_match_wins:
  "((\<forall>x \<in> set before. passed_over P u x) \<and> \<not> skipped_by_domain r u
      \<and> rule_match P u r = Inr (Some captures)
     \<longrightarrow> resolve P u (before @ r # after)
         = (case build_redirect P u r captures of
              Inl err \<Rightarrow> Inl err | Inr resp \<Rightarrow> Inr (Some resp)))
   \<and> ((\<forall>x \<in> set before. passed_over P u x) \<and> \<not> skipped_by_domain r u
      \<and> rule_match P u r = Inl err
     \<longrightarrow> resolve P u (before @ r # after) = Inl err)
   \<and> (skipped_by_domain r u \<longleftrightarrow> (\<exists>d. domain r = Some d \<and> d \<noteq> [] \<and> d \<noteq> hostname u))
   \<and> (skipped_by_domain r u \<longrightarrow> resolve P u (r # after) = resolve P u after)"
  by (auto simp: resolve_passed_over skipped_by_domain_def truthy_def split: option.splits)

theorem first_match_wins_witness:
  "resolve example_platform (https_url ''example.com'' ''/page'' None)
     [(plain_rule ''/page'' ''/other-host'')\<lparr>domain := Some ''book.example.com''\<rparr>,
      plain_rule ''/nothing'' ''/n'',
      plain_rule ''/p*'' ''/first/$1'',
      plain_rule ''/page'' ''/second'']
   = Inr (Some (Redirect ''https://example.com/first/age'' 301))
   \<and> resolve example_platform (https_url ''example.com'' ''/page'' None)
     [plain_rule ''/nothing'' ''/n'', plain_rule ''/page)'' ''/broken'',
      plain_rule ''/page'' ''/second'']
   = Inl SyntaxError"
proof -
  let ?u = "https_url ''example.com'' ''/page'' None"
  let ?a = "(plain_rule ''/page'' ''/other-host'')\<lparr>domain := Some ''book.example.com''\<rparr>"
  have a: "skipped_by_domain ?a ?u"
    using first_match_wins [where r = ?a and u = ?u, THEN conjunct2, THEN conjunct2, THEN conjunct1]
    by (simp add: plain_rule_def https_url_def hostname_def)
  have b: "rule_match example_platform ?u (plain_rule ''/nothing'' ''/n'') = Inr None"
    by code_simp
  have before: "\<forall>x \<in> set [?a, plain_rule ''/nothing'' ''/n'']. passed_over example_platform ?u x"
    using a b by (simp add: passed_over_def)
  have r: "\<not> skipped_by_domain (plain_rule ''/p*'' ''/first/$1'') ?u"
    by (simp add: skipped_by_domain_def plain_rule_def truthy_def)
  have m: "rule_match example_platform ?u (plain_rule ''/p*'' ''/first/$1'') = Inr (Some [Some ''age''])"
    by code_simp
  have d: "build_redirect example_platform ?u (plain_rule ''/p*'' ''/first/$1'') [Some ''age'']
             = Inr (Redirect ''https://example.com/first/age'' 301)"
    by code_simp
  have r': "\<not> skipped_by_domain (plain_rule ''/page)'' ''/broken'') ?u"
    by (simp add: skipped_by_domain_def plain_rule_def truthy_def)
  have m': "rule_match example_platform ?u (plain_rule ''/page)'' ''/broken'') = Inl SyntaxError"
    by code_simp
  have before': "\<forall>x \<in> set [plain_rule ''/nothing'' ''/n'']. passed_over example_platform ?u x"
    using b by (simp add: passed_over_def)
  have first: "resolve example_platform ?u
                 [?a, plain_rule ''/nothing'' ''/n'', plain_rule ''/p*'' ''/first/$1'',
                  plain_rule ''/page'' ''/second'']
               = Inr (Some (Redirect ''https://example.com/first/age'' 301))"
    using first_match_wins [where P = example_platform and u = ?u
            and before = "[?a, plain_rule ''/nothing'' ''/n'']"
            and r = "plain_rule ''/p*'' ''/first/$1''" and captures = "[Some ''age'']"
            and after = "[plain_rule ''/page'' ''/second'']", THEN conjunct1]
          before r m d
    by simp
  have thrown: "resolve example_platform ?u
                  [plain_rule ''/nothing'' ''/n'', plain_rule ''/page)'' ''/broken'',
                   plain_rule ''/page'' ''/second'']
                = Inl SyntaxError"
    using first_match_wins [where P = example_platform and u = ?u
            and before = "[plain_rule ''/nothing'' ''/n'']"
            and r = "plain_rule ''/page)'' ''/broken''" and err = SyntaxError
            and after = "[plain_rule ''/page'' ''/second'']", THEN conjunct2, THEN conjunct1]
          before' r' m'
    by simp
  from first thrown show ?thesis
    by simp
qed

text \<open>
  C1 as it is worded fails in two places. The earliest rule whose domain and pattern
  match is not the one that decides when a rule before it has a pattern the engine
  rejects: \<open>(\<close> is such a pattern, and the resolution ends with the SyntaxError. And
  a rule whose \<open>domain\<close> is set to the empty string is not skipped, though the empty
  string differs from the hostname.
\<close>

theorem first_match_counterexample:
  "rule_match example_platform (https_url ''example.com'' ''/x'' None) (plain_rule ''('' ''/z'')
     = Inl SyntaxError
   \<and> rule_match example_platform (https_url ''example.com'' ''/x'' None) (plain_rule ''/x'' ''/y'')
     = Inr (Some [])
   \<and> resolve example_platform (https_url ''example.com'' ''/x'' None)
       [plain_rule ''('' ''/z'', plain_rule ''/x'' ''/y'']
     = Inl SyntaxError
   \<and> build_redirect example_platform (https_url ''example.com'' ''/x'' None)
       (plain_rule ''/x'' ''/y'') []
     = Inr (Redirect ''https://example.com/y'' 301)
   \<and> hostname (https_url ''example.com'' ''/x'' None) = ''example.com''
   \<and> resolve example_platform (https_url ''example.com'' ''/x'' None)
       [(plain_rule ''/x'' ''/y'')\<lparr>domain := Some []\<rparr>]
     = Inr (Some (Redirect ''https://example.com/y'' 301))"
  by code_simp

section \<open>Exceptions\<close>

lemma rule_match_Inl:
  "rule_match P u r = Inl err \<Longrightarrow> \<not> pattern_compiles P r"
  by (auto simp: rule_match_def matchPath_def pattern_compiles_def Let_def
           split: sum.splits option.splits if_splits)

lemma resolve_cannot_throw:
  "\<forall>r \<in> set rules. rule_cannot_throw P u r \<Longrightarrow> \<exists>x. resolve P u rules = Inr x"
proof (induction rules)
  case Nil
  show ?case by simp
next
  case (Cons r rules)
  then obtain x where x: "resolve P u rules = Inr x"
    by auto
  show ?case
  proof (cases "skipped_by_domain r u")
    case True
    with x show ?thesis by simp
  next
    case False
    with Cons.prems have ok: "pattern_compiles P r" "destination_parses P u r"
      "redirect_status (status_or_default r)"
      by (auto simp: rule_cannot_throw_def)
    show ?thesis
    proof (cases "rule_match P u r")
      case (Inl err)
      with ok(1) show ?thesis by (auto dest: rule_match_Inl)
    next
      case (Inr m)
      show ?thesis
      proof (cases m)
        case None
        with Inr False x show ?thesis by simp
      next
        case (Some captures)
        with Inr ok(2) obtain d where
          "parse_destination P u (substitute (rule_to r) captures) = Some d"
          by (auto simp: destination_parses_def)
        with ok(3) have "\<exists>resp. build_redirect P u r captures = Inr resp"
          by (simp add: build_redirect_def destination_def Response_redirect_def
                redirect_status_def)
        with Inr Some False show ?thesis by auto
      qed
    qed
  qed
qed

text \<open>
  C5, as the code has it: when every rule of the active set is skipped by its domain
  or has a pattern the engine accepts, a destination the URL constructor accepts and
  a redirect status, handling the request ends with a response. An exception of the
  resolution is not contained: it is the outcome of the request. In particular a
  pattern the engine rejects, in a rule that is reached, ends the resolution with an
  exception.
\<close>

theorem fetch_answers_unless_rule_throws:
  "((\<forall>r \<in> set (fst (load_rules e net now c)). rule_cannot_throw P (req_url req) r)
      \<longrightarrow> (\<exists>resp. fst (fetch P net now c e req) = Inr resp))
   \<and> (preprocess P e (req_url req) = None
        \<and> resolve P (req_url req) (fst (load_rules e net now c)) = Inl err
      \<longrightarrow> fst (fetch P net now c e req) = Inl err)
   \<and> ((\<forall>x \<in> set before. passed_over P u x) \<and> \<not> skipped_by_domain r u
        \<and> \<not> pattern_compiles P r
      \<longrightarrow> (\<exists>err. resolve P u (before @ r # after) = Inl err))"
proof (intro conjI impI)
  assume "\<forall>r \<in> set (fst (load_rules e net now c)). rule_cannot_throw P (req_url req) r"
  then obtain x where "resolve P (req_url req) (fst (load_rules e net now c)) = Inr x"
    using resolve_cannot_throw by blast
  then show "\<exists>resp. fst (fetch P net now c e req) = Inr resp"
    by (cases "load_rules e net now c")
       (auto simp: fetch_def Let_def split: option.splits)
next
  assume "preprocess P e (req_url req) = None
        \<and> resolve P (req_url req) (fst (load_rules e net now c)) = Inl err"
  then show "fst (fetch P net now c e req) = Inl err"
    by (cases "load_rules e net now c") (auto simp: fetch_def Let_def)
next
  assume h: "(\<forall>x \<in> set before. passed_over P u x) \<and> \<not> skipped_by_domain r u
        \<and> \<not> pattern_compiles P r"
  then have "\<exists>err. rule_match P u r = Inl err"
    by (auto simp: rule_match_def matchPath_def pattern_compiles_def Let_def
           split: sum.splits option.splits if_splits)
  with h show "\<exists>err. resolve P u (before @ r # after) = Inl err"
    by (auto simp: resolve_passed_over)
qed

theorem fetch_answers_unless_rule_throws_witness:
  "rule_cannot_throw example_platform (https_url ''example.com'' ''/nonexistent'' None)
     (plain_rule ''/a*'' ''/b/$1'')
   \<and> fst (fetch example_platform unreachable 1000
       \<lparr>cachedRules = Some [plain_rule ''/a*'' ''/b/$1''], cacheTimestamp = 0\<rparr> gist_env
       (get_request (https_url ''example.com'' ''/nonexistent'' None)))
     = Inr (NotFoundPage ''/nonexistent'')"
proof -
  let ?c = "\<lparr>cachedRules = Some [plain_rule ''/a*'' ''/b/$1''], cacheTimestamp = 0\<rparr>"
  let ?u = "https_url ''example.com'' ''/nonexistent'' None"
  have l: "fst (load_rules gist_env unreachable 1000 ?c) = [plain_rule ''/a*'' ''/b/$1'']"
    by code_simp
  have safe: "rule_cannot_throw example_platform ?u (plain_rule ''/a*'' ''/b/$1'')"
    by code_simp
  have answer: "fst (fetch example_platform unreachable 1000 ?c gist_env (get_request ?u))
                  = Inr (NotFoundPage ''/nonexistent'')"
    by code_simp
  show ?thesis
    using fetch_answers_unless_rule_throws [where e = gist_env and net = unreachable
            and now = 1000 and c = ?c and P = example_platform
            and req = "get_request ?u", THEN conjunct1] l safe answer
    by (simp add: get_request_def)
qed

text \<open>
  C5 as it is worded fails: a rule set with the malformed pattern \<open>(\<close> makes the
  request end with a SyntaxError, a destination without a host with a TypeError, a
  status that is not a redirect status with a RangeError.
\<close>

theorem malformed_pattern_counterexample:
  "fst (fetch example_platform (serving [plain_rule ''('' ''/z'']) 1000 initial_cache gist_env
          (get_request (https_url ''example.com'' ''/x'' None)))
     = Inl SyntaxError
   \<and> fst (fetch example_platform (serving [plain_rule ''/x'' ''https://'']) 1000 initial_cache
          gist_env (get_request (https_url ''example.com'' ''/x'' None)))
     = Inl TypeError
   \<and> fst (fetch example_platform (serving [(plain_rule ''/x'' ''/y'')\<lparr>status := Some 200\<rparr>])
          1000 initial_cache gist_env (get_request (https_url ''example.com'' ''/x'' None)))
     = Inl RangeError"
  by code_simp

section \<open>Rules before the other endpoints\<close>

text \<open>
  C10, as the code has it: for a request that passes preprocessing, the rules of the
  active set are tried before the health check, the admin endpoint and the 404 page.
  When every rule before a rule is passed over and that rule is not skipped and
  matches, the outcome of the request is what building the redirect from that rule
  gives, also for the paths \<open>/health\<close> and \<open>/admin/rules\<close>. A response that is not
  a redirect is produced only when every rule is passed over, and it is then the
  health check, the admin answer or the 404 page.
\<close>

theorem rules_before_fallback:
  assumes "preprocess P e (req_url req) = None"
    and "load_rules e net now c = (rules, c', fetched)"
  shows "(rules = before @ r # after
          \<and> (\<forall>x \<in> set before. passed_over P (req_url req) x)
          \<and> \<not> skipped_by_domain r (req_url req)
          \<and> rule_match P (req_url req) r = Inr (Some captures)
         \<longrightarrow> fetch P net now c e req = (build_redirect P (req_url req) r captures, c', fetched))
     \<and> (\<forall>resp. fst (fetch P net now c e req) = Inr resp \<and> \<not> is_redirect resp
         \<longrightarrow> (\<forall>x \<in> set rules. passed_over P (req_url req) x) \<and> resp = fallback e req rules)
     \<and> ((\<forall>x \<in> set rules. passed_over P (req_url req) x)
         \<longrightarrow> fetch P net now c e req = (Inr (fallback e req rules), c', fetched))"
proof -
  let ?u = "req_url req"
  have first: "fetch P net now c e req = (build_redirect P ?u r captures, c', fetched)"
    if h: "rules = before @ r # after \<and> (\<forall>x \<in> set before. passed_over P ?u x)
          \<and> \<not> skipped_by_domain r ?u \<and> rule_match P ?u r = Inr (Some captures)"
  proof -
    from h have "resolve P ?u rules
               = (case build_redirect P ?u r captures of
                    Inl err \<Rightarrow> Inl err | Inr resp \<Rightarrow> Inr (Some resp))"
      by (simp add: resolve_passed_over)
    with assms show ?thesis
      by (auto simp: fetch_def Let_def split: sum.splits)
  qed
  have only: "(\<forall>x \<in> set rules. passed_over P ?u x) \<and> resp = fallback e req rules"
    if h: "fst (fetch P net now c e req) = Inr resp \<and> \<not> is_redirect resp" for resp
  proof (cases "resolve P ?u rules")
    case (Inl err)
    with assms h show ?thesis by (simp add: fetch_def Let_def)
  next
    case (Inr m)
    show ?thesis
    proof (cases m)
      case None
      with Inr assms h show ?thesis
        by (simp add: fetch_def Let_def resolve_None_iff [symmetric])
    next
      case (Some found)
      with Inr have "is_redirect found" by (auto dest: resolve_Some_is_redirect)
      with Inr Some assms h show ?thesis by (simp add: fetch_def Let_def)
    qed
  qed
  have none: "fetch P net now c e req = (Inr (fallback e req rules), c', fetched)"
    if "\<forall>x \<in> set rules. passed_over P ?u x"
  proof -
    from that have "resolve P ?u rules = Inr None"
      by (simp add: resolve_None_iff)
    with assms show ?thesis
      by (simp add: fetch_def Let_def)
  qed
  from first only none show ?thesis
    by blast
qed

theorem rules_before_fallback_witness:
  "fetch example_platform unreachable 1000
     \<lparr>cachedRules = Some [plain_rule ''/health'' ''/status''], cacheTimestamp = 0\<rparr> gist_env
     (get_request (https_url ''example.com'' ''/health'' None))
   = (Inr (Redirect ''https://example.com/status'' 301),
      \<lparr>cachedRules = Some [plain_rule ''/health'' ''/status''], cacheTimestamp = 0\<rparr>, [])
   \<and> fetch example_platform unreachable 1000
     \<lparr>cachedRules = Some [plain_rule ''/other'' ''/status''], cacheTimestamp = 0\<rparr> gist_env
     (get_request (https_url ''example.com'' ''/health'' None))
   = (Inr HealthOk,
      \<lparr>cachedRules = Some [plain_rule ''/other'' ''/status''], cacheTimestamp = 0\<rparr>, [])"
proof -
  let ?u = "https_url ''example.com'' ''/health'' None"
  let ?c = "\<lparr>cachedRules = Some [plain_rule ''/health'' ''/status''], cacheTimestamp = 0\<rparr>"
  let ?c2 = "\<lparr>cachedRules = Some [plain_rule ''/other'' ''/status''], cacheTimestamp = 0\<rparr>"
  have pre: "preprocess example_platform gist_env (req_url (get_request ?u)) = None"
    by code_simp
  have l: "load_rules gist_env unreachable 1000 ?c = ([plain_rule ''/health'' ''/status''], ?c, [])"
    by code_simp
  have l2: "load_rules gist_env unreachable 1000 ?c2 = ([plain_rule ''/other'' ''/status''], ?c2, [])"
    by code_simp
  have m: "rule_match example_platform ?u (plain_rule ''/health'' ''/status'') = Inr (Some [])"
    by code_simp
  have m2: "rule_match example_platform ?u (plain_rule ''/other'' ''/status'') = Inr None"
    by code_simp
  have s: "\<not> skipped_by_domain (plain_rule ''/health'' ''/status'') ?u"
    by (simp add: skipped_by_domain_def plain_rule_def truthy_def)
  have b: "build_redirect example_platform ?u (plain_rule ''/health'' ''/status'') []
             = Inr (Redirect ''https://example.com/status'' 301)"
    by code_simp
  have f: "fallback gist_env (get_request ?u) [plain_rule ''/other'' ''/status''] = HealthOk"
    by code_simp
  show ?thesis
    using rules_before_fallback [OF pre l, where before = "[]"
            and r = "plain_rule ''/health'' ''/status''" and after = "[]" and captures = "[]",
            THEN conjunct1]
          rules_before_fallback [OF pre l2, THEN conjunct2, THEN conjunct2]
          m m2 s b f
    by (simp add: get_request_def passed_over_def)
qed

text \<open>
  C10 as it is worded fails when a rule before the matching one has a pattern the
  engine rejects: the rule for \<open>/health\<close> matches, and the request ends with the
  SyntaxError of the rule before it, not with the redirect.
\<close>

theorem shadowed_by_malformed_counterexample:
  "rule_match example_platform (https_url ''example.com'' ''/health'' None)
       (plain_rule ''/health'' ''/status'')
     = Inr (Some [])
   \<and> fst (fetch example_platform unreachable 1000
       \<lparr>cachedRules = Some [plain_rule ''/health)'' ''/z'', plain_rule ''/health'' ''/status''],
        cacheTimestamp = 0\<rparr> gist_env
       (get_request (https_url ''example.com'' ''/health'' None)))
     = Inl SyntaxError"
  by code_simp

end
